theory Spec2Isabelle
  imports Main "HOL-Library.Sublist" "HOL-Library.Countable"
begin

section \<open>Strings\<close>

text \<open>
  The plan executor of \<^verbatim>\<open>fs-tools\<close> (\<^verbatim>\<open>applyPlan\<close>, \<^verbatim>\<open>listDirectory\<close> and their helpers)
  works on JavaScript strings. A string is modelled as a \<^typ>\<open>string\<close>, a list of 8-bit
  characters: the bytes of its UTF-8 encoding, which for ASCII text are its characters.
  The non-ASCII literals of the source are written as their UTF-8 bytes.
\<close>

text \<open>\<^verbatim>\<open>String.prototype.trim\<close> removes white space and line terminators at both ends:
  the code points U+0009 to U+000D, U+0020, U+00A0, U+1680, U+2000 to U+200A, U+2028,
  U+2029, U+202F, U+205F, U+3000 and U+FEFF, here in their UTF-8 encoding. \<^verbatim>\<open>!s.trim()\<close>
  holds exactly when \<^verbatim>\<open>s\<close> is made of such code points only.\<close>

definition whiteSpace :: "string list" where
  "whiteSpace =
     [[CHR 0x09], [CHR 0x0A], [CHR 0x0B], [CHR 0x0C], [CHR 0x0D], [CHR 0x20],
      [CHR 0xC2, CHR 0xA0],
      [CHR 0xE1, CHR 0x9A, CHR 0x80],
      [CHR 0xE2, CHR 0x80, CHR 0x80], [CHR 0xE2, CHR 0x80, CHR 0x81],
      [CHR 0xE2, CHR 0x80, CHR 0x82], [CHR 0xE2, CHR 0x80, CHR 0x83],
      [CHR 0xE2, CHR 0x80, CHR 0x84], [CHR 0xE2, CHR 0x80, CHR 0x85],
      [CHR 0xE2, CHR 0x80, CHR 0x86], [CHR 0xE2, CHR 0x80, CHR 0x87],
      [CHR 0xE2, CHR 0x80, CHR 0x88], [CHR 0xE2, CHR 0x80, CHR 0x89],
      [CHR 0xE2, CHR 0x80, CHR 0x8A],
      [CHR 0xE2, CHR 0x80, CHR 0xA8], [CHR 0xE2, CHR 0x80, CHR 0xA9],
      [CHR 0xE2, CHR 0x80, CHR 0xAF],
      [CHR 0xE2, CHR 0x81, CHR 0x9F],
      [CHR 0xE3, CHR 0x80, CHR 0x80],
      [CHR 0xEF, CHR 0xBB, CHR 0xBF]]"

text \<open>The number of bytes of the white space code point with which a string starts, or
  ends; 0 when there is none.\<close>

definition whiteAtStart :: "string \<Rightarrow> nat" where
  "whiteAtStart s =
     (case find (\<lambda>w. prefix w s) whiteSpace of None \<Rightarrow> 0 | Some w \<Rightarrow> length w)"

definition whiteAtEnd :: "string \<Rightarrow> nat" where
  "whiteAtEnd s =
     (case find (\<lambda>w. suffix w s) whiteSpace of None \<Rightarrow> 0 | Some w \<Rightarrow> length w)"

lemma whiteAtStart_le: "whiteAtStart s \<le> length s"
  by (auto simp: whiteAtStart_def find_Some_iff prefix_length_le split: option.splits)

lemma whiteAtEnd_le: "whiteAtEnd s \<le> length s"
  by (auto simp: whiteAtEnd_def find_Some_iff suffix_length_le split: option.splits)

function trimStart :: "string \<Rightarrow> string" where
  "trimStart s = (if whiteAtStart s = 0 then s else trimStart (drop (whiteAtStart s) s))"
  by pat_completeness auto
termination
proof (relation "measure length")
  show "wf (measure length)" by simp
next
  fix s :: string
  assume "whiteAtStart s \<noteq> 0"
  with whiteAtStart_le [of s] show "(drop (whiteAtStart s) s, s) \<in> measure length"
    by simp
qed

function trimEnd :: "string \<Rightarrow> string" where
  "trimEnd s = (if whiteAtEnd s = 0 then s else trimEnd (take (length s - whiteAtEnd s) s))"
  by pat_completeness auto
termination
proof (relation "measure length")
  show "wf (measure length)" by simp
next
  fix s :: string
  assume "whiteAtEnd s \<noteq> 0"
  with whiteAtEnd_le [of s] show "(take (length s - whiteAtEnd s) s, s) \<in> measure length"
    by simp
qed

declare trimStart.simps [simp del] trimEnd.simps [simp del]

definition trim :: "string \<Rightarrow> string" where
  "trim s = trimEnd (trimStart s)"

definition startsWith :: "string \<Rightarrow> string \<Rightarrow> bool" where
  "startsWith s p = prefix p s"

definition endsWith :: "string \<Rightarrow> string \<Rightarrow> bool" where
  "endsWith s p = suffix p s"

text \<open>\<^verbatim>\<open>firstOcc s t\<close> is the least position at which \<^verbatim>\<open>s\<close> occurs in \<^verbatim>\<open>t\<close>.\<close>

fun firstOcc :: "string \<Rightarrow> string \<Rightarrow> nat option" where
  "firstOcc s [] = (if s = [] then Some 0 else None)"
| "firstOcc s (c # cs) =
     (if prefix s (c # cs) then Some 0 else map_option Suc (firstOcc s cs))"

text \<open>\<^verbatim>\<open>text.indexOf(search, idx)\<close>: the start position is clamped to the length of the
  text; \<^verbatim>\<open>-1\<close> is \<open>None\<close>.\<close>

definition indexOf :: "string \<Rightarrow> string \<Rightarrow> nat \<Rightarrow> nat option" where
  "indexOf text search idx =
     (let k = min idx (length text)
      in map_option (\<lambda>n. n + k) (firstOcc search (drop k text)))"

lemma firstOcc_bound: "firstOcc s t = Some n \<Longrightarrow> n + length s \<le> length t"
proof (induction t arbitrary: n)
  case Nil
  then show ?case by (simp split: if_splits)
next
  case (Cons c cs)
  show ?case
  proof (cases "prefix s (c # cs)")
    case True
    with Cons.prems have "n = 0" by simp
    with True show ?thesis using prefix_length_le by fastforce
  next
    case False
    with Cons.prems obtain k where k: "firstOcc s cs = Some k" "n = Suc k" by auto
    from Cons.IH [OF k(1)] k(2) show ?thesis by simp
  qed
qed

lemma indexOf_bound:
  assumes "indexOf text search idx = Some n"
  shows "min idx (length text) \<le> n \<and> n + length search \<le> length text"
proof -
  let ?k = "min idx (length text)"
  from assms obtain j where j: "firstOcc search (drop ?k text) = Some j" "n = j + ?k"
    by (auto simp: indexOf_def Let_def)
  from firstOcc_bound [OF j(1)] have "j + length search \<le> length text - ?k" by simp
  with j(2) show ?thesis by auto
qed

text \<open>\<^verbatim>\<open>String.prototype.split\<close> with a string separator and no limit: an empty
  separator splits the text into its characters; otherwise the text is cut at the
  occurrences of the separator found from left to right.\<close>

function splitFrom :: "string \<Rightarrow> string \<Rightarrow> nat \<Rightarrow> string list" where
  "splitFrom text sep i =
     (case indexOf text sep i of
        None \<Rightarrow> [drop i text]
      | Some j \<Rightarrow>
          if sep = [] then [drop i text]
          else take (j - i) (drop i text) # splitFrom text sep (j + length sep))"
  by pat_completeness auto
termination
proof (relation "measure (\<lambda>(text, sep, i). length text - i)")
  show "wf (measure (\<lambda>(text, sep, i). length text - i))" by simp
next
  fix t sep :: string and i j :: nat
  assume a: "indexOf t sep i = Some j" "sep \<noteq> []"
  from a(2) have p: "0 < length sep" by simp
  from indexOf_bound [OF a(1)]
  have q: "min i (length t) \<le> j" "j + length sep \<le> length t" by simp_all
  from p q have "i < j + length sep" by arith
  with q(2) show "((t, sep, j + length sep), (t, sep, i))
      \<in> measure (\<lambda>(text, sep, i). length text - i)" by auto
qed

definition split :: "string \<Rightarrow> string \<Rightarrow> string list" where
  "split text sep = (if sep = [] then map (\<lambda>c. [c]) text else splitFrom text sep 0)"

text \<open>\<^verbatim>\<open>Array.prototype.join\<close> on an array of strings.\<close>

fun join :: "string list \<Rightarrow> string \<Rightarrow> string" where
  "join [] sep = []"
| "join [x] sep = x"
| "join (x # y # ys) sep = x @ sep @ join (y # ys) sep"

section \<open>Counting literal matches\<close>

text \<open>The loop of \<^verbatim>\<open>countMatchesLiteral\<close>, with its two variables \<^verbatim>\<open>idx\<close> and
  \<^verbatim>\<open>count\<close>.\<close>

function countLoop :: "string \<Rightarrow> string \<Rightarrow> nat \<Rightarrow> nat \<Rightarrow> nat" where
  "countLoop text search idx count =
     (case indexOf text search idx of
        None \<Rightarrow> count
      | Some next \<Rightarrow>
          if length search = 0 then count + 1
          else countLoop text search (next + length search) (count + 1))"
  by pat_completeness auto
termination
proof (relation "measure (\<lambda>(text, search, idx, count). length text - idx)")
  show "wf (measure (\<lambda>(text, search, idx, count). length text - idx))" by simp
next
  fix t search :: string and idx count n :: nat
  assume a: "indexOf t search idx = Some n" "length search \<noteq> 0"
  from a(2) have p: "0 < length search" by simp
  from indexOf_bound [OF a(1)]
  have q: "min idx (length t) \<le> n" "n + length search \<le> length t" by simp_all
  from p q have "idx < n + length search" by arith
  with q(2) show "((t, search, n + length search, count + 1), (t, search, idx, count))
      \<in> measure (\<lambda>(text, search, idx, count). length text - idx)" by auto
qed

definition countMatchesLiteral :: "string \<Rightarrow> string \<Rightarrow> nat" where
  "countMatchesLiteral text search = (if search = [] then 0 else countLoop text search 0 0)"

text \<open>The literal branch of \<^verbatim>\<open>execReplace\<close>:
  \<^verbatim>\<open>next = raw.split(op.search).join(op.replace)\<close>.\<close>

definition replaceLiteral :: "string \<Rightarrow> string \<Rightarrow> string \<Rightarrow> string" where
  "replaceLiteral raw search repl = join (split raw search) repl"

section \<open>Paths\<close>

text \<open>
  The functions of Node's \<^verbatim>\<open>path\<close> module that the source imports, in their POSIX form
  (\<^verbatim>\<open>sep\<close> is \<^verbatim>\<open>/\<close>). \<^verbatim>\<open>segments\<close> cuts a path at every separator, and
  \<^verbatim>\<open>normSegs\<close> is the segment walk of \<^verbatim>\<open>normalizeString\<close>: empty segments and \<^verbatim>\<open>.\<close>
  are dropped, \<^verbatim>\<open>..\<close> removes the segment before it, or is kept when there is none
  and the path is relative.
\<close>

definition sep :: string where
  "sep = ''/''"

fun segments :: "string \<Rightarrow> string list" where
  "segments [] = [[]]"
| "segments (c # cs) =
     (if c = CHR ''/'' then [] # segments cs
      else (case segments cs of [] \<Rightarrow> [[c]] | s # ss \<Rightarrow> (c # s) # ss))"

fun normSegs :: "bool \<Rightarrow> string list \<Rightarrow> string list \<Rightarrow> string list" where
  "normSegs allowAboveRoot res [] = res"
| "normSegs allowAboveRoot res (s # ss) =
     (if s = [] \<or> s = ''.'' then normSegs allowAboveRoot res ss
      else if s = ''..'' then
        (if res \<noteq> [] \<and> last res \<noteq> ''..'' then normSegs allowAboveRoot (butlast res) ss
         else if allowAboveRoot then normSegs allowAboveRoot (res @ [''..'']) ss
         else normSegs allowAboveRoot res ss)
      else normSegs allowAboveRoot (res @ [s]) ss)"

definition normalizeString :: "string \<Rightarrow> bool \<Rightarrow> string" where
  "normalizeString path allowAboveRoot = join (normSegs allowAboveRoot [] (segments path)) ''/''"

definition normalize :: "string \<Rightarrow> string" where
  "normalize path =
     (if path = [] then ''.''
      else
        let isAbsolute = (hd path = CHR ''/'');
            trailingSeparator = (last path = CHR ''/'');
            p = normalizeString path (\<not> isAbsolute)
        in if p = [] then (if isAbsolute then ''/'' else if trailingSeparator then ''./'' else ''.'')
           else
             let p' = (if trailingSeparator then p @ ''/'' else p)
             in if isAbsolute then ''/'' @ p' else p')"

text \<open>\<^verbatim>\<open>path.resolve\<close> reads its arguments from the last to the first, and after them the
  working directory, until the path built so far is absolute.\<close>

fun resolveArgs :: "string list \<Rightarrow> string \<Rightarrow> string \<times> bool" where
  "resolveArgs [] resolvedPath = (resolvedPath, False)"
| "resolveArgs (p # ps) resolvedPath =
     (if p = [] then resolveArgs ps resolvedPath
      else if hd p = CHR ''/'' then (p @ ''/'' @ resolvedPath, True)
      else resolveArgs ps (p @ ''/'' @ resolvedPath))"

definition resolve :: "string \<Rightarrow> string list \<Rightarrow> string" where
  "resolve cwd args =
     (case resolveArgs (rev args @ [cwd]) [] of
        (resolvedPath, resolvedAbsolute) \<Rightarrow>
          let n = normalizeString resolvedPath (\<not> resolvedAbsolute)
          in if resolvedAbsolute then ''/'' @ n else if n \<noteq> [] then n else ''.'')"

definition dirname :: "string \<Rightarrow> string" where
  "dirname path =
     (if path = [] then ''.''
      else
        let hasRoot = (hd path = CHR ''/'');
            upto = rev (dropWhile (\<lambda>c. c \<noteq> CHR ''/'')
                     (dropWhile (\<lambda>c. c = CHR ''/'') (rev (tl path))));
            end = length upto
        in if upto = [] then (if hasRoot then ''/'' else ''.'')
           else if hasRoot \<and> end = 1 then ''//''
           else take end path)"

definition pathJoin :: "string \<Rightarrow> string \<Rightarrow> string" where
  "pathJoin a b =
     (let joined = (if a = [] then b else if b = [] then a else a @ ''/'' @ b)
      in if joined = [] then ''.'' else normalize joined)"

text \<open>\<^verbatim>\<open>path.relative\<close>: both paths are resolved, their common leading segments are
  dropped, and the way from the first to the second is one \<^verbatim>\<open>..\<close> for each segment left of
  the first followed by the segments left of the second.\<close>

fun dropCommon :: "string list \<Rightarrow> string list \<Rightarrow> string list \<times> string list" where
  "dropCommon (x # xs) (y # ys) = (if x = y then dropCommon xs ys else (x # xs, y # ys))"
| "dropCommon xs ys = (xs, ys)"

definition relative :: "string \<Rightarrow> string \<Rightarrow> string \<Rightarrow> string" where
  "relative cwd from to =
     (if from = to then []
      else
        let f = resolve cwd [from]; t = resolve cwd [to]
        in if f = t then []
           else (case dropCommon (filter (\<lambda>s. s \<noteq> []) (segments f))
                                 (filter (\<lambda>s. s \<noteq> []) (segments t)) of
                   (fs, ts) \<Rightarrow> join (replicate (length fs) ''..'' @ ts) ''/''))"

section \<open>Errors\<close>

text \<open>Every exception of the source is a JavaScript error object carrying a message. The
  source raises \<^verbatim>\<open>Error\<close> itself; the regular expression constructor raises
  \<^verbatim>\<open>SyntaxError\<close>, and the file system calls raise system errors.\<close>

datatype exn = Error string | SyntaxError string | SystemError string

fun message :: "exn \<Rightarrow> string" where
  "message (Error m) = m"
| "message (SyntaxError m) = m"
| "message (SystemError m) = m"

definition msgEmptyPath :: string where
  "msgEmptyPath = ''path '' @ [CHR 0xE4, CHR 0xB8, CHR 0x8D, CHR 0xE8, CHR 0x83, CHR 0xBD, CHR 0xE4, CHR 0xB8, CHR 0xBA, CHR 0xE7, CHR 0xA9, CHR 0xBA]"

definition msgEscape :: string where
  "msgEscape = [CHR 0xE8, CHR 0xB7, CHR 0xAF, CHR 0xE5, CHR 0xBE, CHR 0x84, CHR 0xE8, CHR 0xB6, CHR 0x8A, CHR 0xE7, CHR 0x95, CHR 0x8C, CHR 0xEF, CHR 0xBC, CHR 0x9A]"

definition msgNotFile :: string where
  "msgNotFile = [CHR 0xE4, CHR 0xB8, CHR 0x8D, CHR 0xE6, CHR 0x98, CHR 0xAF, CHR 0xE6, CHR 0x96, CHR 0x87, CHR 0xE4, CHR 0xBB, CHR 0xB6, CHR 0xEF, CHR 0xBC, CHR 0x9A]"

definition msgTooLarge :: string where
  "msgTooLarge = [CHR 0xE6, CHR 0x96, CHR 0x87, CHR 0xE4, CHR 0xBB, CHR 0xB6, CHR 0xE8, CHR 0xBF, CHR 0x87, CHR 0xE5, CHR 0xA4, CHR 0xA7, CHR 0xEF, CHR 0xBC, CHR 0x8C, CHR 0xE8, CHR 0xB7, CHR 0xB3, CHR 0xE8, CHR 0xBF, CHR 0x87, CHR 0xE6, CHR 0x9B, CHR 0xBF, CHR 0xE6, CHR 0x8D, CHR 0xA2, CHR 0xEF, CHR 0xBC, CHR 0x88] @ ''>2MB'' @ [CHR 0xEF, CHR 0xBC, CHR 0x89, CHR 0xEF, CHR 0xBC, CHR 0x9A]"

definition msgUnknownOp :: string where
  "msgUnknownOp = [CHR 0xE6, CHR 0x9C, CHR 0xAA, CHR 0xE7, CHR 0x9F, CHR 0xA5, CHR 0xE6, CHR 0x93, CHR 0x8D, CHR 0xE4, CHR 0xBD, CHR 0x9C] @ '': ''"

definition msgUnknownError :: string where
  "msgUnknownError = [CHR 0xE6, CHR 0x9C, CHR 0xAA, CHR 0xE7, CHR 0x9F, CHR 0xA5, CHR 0xE9, CHR 0x94, CHR 0x99, CHR 0xE8, CHR 0xAF, CHR 0xAF]"

text \<open>The error kinds of the specification, as the source raises them.\<close>

definition InvalidPath :: exn where
  "InvalidPath = Error msgEmptyPath"

definition PathEscape :: "string \<Rightarrow> exn" where
  "PathEscape relPath = Error (msgEscape @ relPath)"

definition NotAFile :: "string \<Rightarrow> exn" where
  "NotAFile path = Error (msgNotFile @ path)"

definition FileTooLarge :: "string \<Rightarrow> exn" where
  "FileTooLarge path = Error (msgTooLarge @ path)"

definition UnknownOperation :: "string \<Rightarrow> exn" where
  "UnknownOperation tag = Error (msgUnknownOp @ tag)"

section \<open>Path sandbox\<close>

definition normalizeRoot :: "string \<Rightarrow> string \<Rightarrow> string" where
  "normalizeRoot cwd root =
     (let absP = resolve cwd [root]
      in if endsWith absP sep then absP else absP @ sep)"

definition ensureWithinRoot :: "string \<Rightarrow> string \<Rightarrow> string \<Rightarrow> exn + string" where
  "ensureWithinRoot cwd rootWithSep relPath =
     (if trim relPath = [] then Inl InvalidPath
      else
        let normalized = dropWhile (\<lambda>c. c = CHR 0x5C \<or> c = CHR ''/'') (normalize relPath);
            absP = resolve cwd [rootWithSep, normalized]
        in if \<not> startsWith absP rootWithSep then Inl (PathEscape relPath) else Inr absP)"

definition toRel :: "string \<Rightarrow> string \<Rightarrow> string \<Rightarrow> string" where
  "toRel cwd rootWithSep absPath = join (split (relative cwd rootWithSep absPath) sep) ''/''"

section \<open>Regular expressions\<close>

text \<open>
  The pattern language is the host's. A compiled pattern is its matcher: at a position of
  the text it either fails or gives the length of the match that starts there and the
  texts of its capture groups. What the source relies on is the protocol around the
  matcher: the \<^verbatim>\<open>global\<close> and \<^verbatim>\<open>sticky\<close> flags, \<^verbatim>\<open>lastIndex\<close>, \<^verbatim>\<open>exec\<close> and
  \<^verbatim>\<open>String.prototype.replace\<close>, modelled here after the language standard.
\<close>

type_synonym Matcher = "string \<Rightarrow> nat \<Rightarrow> (nat \<times> string option list) option"

record RegExp =
  re_source :: string
  re_flags :: string
  re_matcher :: Matcher
  lastIndex :: nat

record MatchResult =
  m_index :: nat
  m_length :: nat
  m_captures :: "string option list"

definition re_global :: "RegExp \<Rightarrow> bool" where
  "re_global re = (CHR ''g'' \<in> set (re_flags re))"

definition re_sticky :: "RegExp \<Rightarrow> bool" where
  "re_sticky re = (CHR ''y'' \<in> set (re_flags re))"

text \<open>\<^verbatim>\<open>new RegExp(source, flags)\<close>; \<^verbatim>\<open>compile\<close> is the host's pattern compiler, which
  raises a \<^verbatim>\<open>SyntaxError\<close> on a pattern or on flags it does not accept.\<close>

definition newRegExp :: "(string \<Rightarrow> string \<Rightarrow> exn + Matcher) \<Rightarrow> string \<Rightarrow> string \<Rightarrow> exn + RegExp" where
  "newRegExp compile source flags =
     (case compile source flags of
        Inl e \<Rightarrow> Inl e
      | Inr m \<Rightarrow> Inr \<lparr>re_source = source, re_flags = flags, re_matcher = m, lastIndex = 0\<rparr>)"

text \<open>The search of \<^verbatim>\<open>exec\<close>: from position \<^verbatim>\<open>i\<close> the matcher is tried at each position
  in turn, at \<^verbatim>\<open>i\<close> only when the expression is sticky.\<close>

function searchFrom :: "Matcher \<Rightarrow> bool \<Rightarrow> string \<Rightarrow> nat \<Rightarrow> MatchResult option" where
  "searchFrom m sticky s i =
     (if length s < i then None
      else (case m s i of
              Some (len, caps) \<Rightarrow> Some \<lparr>m_index = i, m_length = len, m_captures = caps\<rparr>
            | None \<Rightarrow> if sticky then None else searchFrom m sticky s (i + 1)))"
  by pat_completeness auto
termination
  by (relation "measure (\<lambda>(m, sticky, s, i). Suc (length s) - i)") auto

text \<open>\<^verbatim>\<open>re.exec(s)\<close> returns the match or \<^verbatim>\<open>null\<close>, and the expression with its
  \<^verbatim>\<open>lastIndex\<close> updated: to the end of the match, or to 0 when there is none.\<close>

definition regExpExec :: "RegExp \<Rightarrow> string \<Rightarrow> MatchResult option \<times> RegExp" where
  "regExpExec re s =
     (let useLast = (re_global re \<or> re_sticky re);
          start = (if useLast then lastIndex re else 0)
      in case searchFrom (re_matcher re) (re_sticky re) s start of
           None \<Rightarrow> (None, if useLast then re\<lparr>lastIndex := 0\<rparr> else re)
         | Some r \<Rightarrow>
             (Some r, if useLast then re\<lparr>lastIndex := m_index r + m_length r\<rparr> else re))"

text \<open>The loop of \<^verbatim>\<open>countMatchesRegex\<close>. Nothing in it moves \<^verbatim>\<open>lastIndex\<close> past a match
  of length 0, so the loop need not end: not returning is \<open>None\<close>.\<close>

partial_function (option) countLoopRegex :: "RegExp \<Rightarrow> string \<Rightarrow> nat \<Rightarrow> nat option" where
  "countLoopRegex globalRe s count =
     (case regExpExec globalRe s of
        (None, re') \<Rightarrow> Some count
      | (Some r, re') \<Rightarrow>
          if \<not> re_global re' then Some (count + 1)
          else countLoopRegex re' s (count + 1))"

declare countLoopRegex.simps [code]

definition countMatchesRegex ::
  "(string \<Rightarrow> string \<Rightarrow> exn + Matcher) \<Rightarrow> string \<Rightarrow> RegExp \<Rightarrow> (exn + nat) option" where
  "countMatchesRegex compile s re =
     (case (if re_global re then Inr re
            else newRegExp compile (re_source re) (re_flags re @ ''g'')) of
        Inl e \<Rightarrow> Some (Inl e)
      | Inr globalRe \<Rightarrow> map_option Inr (countLoopRegex (globalRe\<lparr>lastIndex := 0\<rparr>) s 0))"

text \<open>\<^verbatim>\<open>s.replace(re, template)\<close> first collects the matches. For a global expression it
  calls \<^verbatim>\<open>exec\<close> from \<^verbatim>\<open>lastIndex = 0\<close> until there is no match, and steps over a match of
  length 0 by one position.\<close>

lemma searchFrom_bounds:
  "searchFrom m sticky s i = Some r \<Longrightarrow> i \<le> m_index r \<and> m_index r \<le> length s"
proof (induction m sticky s i rule: searchFrom.induct)
  case (1 m sticky s i)
  have unfold: "searchFrom m sticky s i =
     (if length s < i then None
      else (case m s i of
              Some (len, caps) \<Rightarrow> Some \<lparr>m_index = i, m_length = len, m_captures = caps\<rparr>
            | None \<Rightarrow> if sticky then None else searchFrom m sticky s (i + 1)))"
    by (rule searchFrom.simps)
  from "1.prems" unfold have le: "\<not> length s < i"
    by (simp split: if_splits)
  show ?case
  proof (cases "m s i")
    case None
    with "1.prems" unfold le have ns: "\<not> sticky"
      by (simp split: if_splits)
    with "1.prems" unfold le None have rec: "searchFrom m sticky s (i + 1) = Some r"
      by simp
    from "1.IH" [OF le None ns rec] show ?thesis by simp
  next
    case (Some a)
    obtain len caps where a: "a = (len, caps)" by (cases a)
    with "1.prems" unfold le Some
    have "r = \<lparr>m_index = i, m_length = len, m_captures = caps\<rparr>" by simp
    with le show ?thesis by simp
  qed
qed

function collectMatches :: "Matcher \<Rightarrow> bool \<Rightarrow> string \<Rightarrow> nat \<Rightarrow> MatchResult list" where
  "collectMatches m sticky s li =
     (case searchFrom m sticky s li of
        None \<Rightarrow> []
      | Some r \<Rightarrow>
          r # collectMatches m sticky s
                (if m_length r = 0 then m_index r + m_length r + 1
                 else m_index r + m_length r))"
  by pat_completeness auto
termination
proof (relation "measure (\<lambda>(m, sticky, s, li). Suc (length s) - li)")
  show "wf (measure (\<lambda>(m, sticky, s, li). Suc (length s) - li))" by simp
next
  fix m :: Matcher and sticky :: bool and s :: string and li :: nat and r :: MatchResult
  assume "searchFrom m sticky s li = Some r"
  from searchFrom_bounds [OF this] have "li \<le> m_index r" "m_index r \<le> length s" by simp_all
  then show "((m, sticky, s,
       if m_length r = 0 then m_index r + m_length r + 1 else m_index r + m_length r),
      (m, sticky, s, li)) \<in> measure (\<lambda>(m, sticky, s, li). Suc (length s) - li)"
    by auto
qed

text \<open>\<^verbatim>\<open>GetSubstitution\<close> expands the replacement template: \<^verbatim>\<open>$$\<close>, \<^verbatim>\<open>$&\<close>, the text
  before and after the match, and the numbered capture groups (named groups are not
  modelled).\<close>

definition isDigit :: "char \<Rightarrow> bool" where
  "isDigit c = (c \<in> set ''0123456789'')"

definition digitVal :: "char \<Rightarrow> nat" where
  "digitVal c = of_char c - 48"

definition captureText :: "string option list \<Rightarrow> nat \<Rightarrow> string" where
  "captureText captures n =
     (case captures ! (n - 1) of None \<Rightarrow> [] | Some c \<Rightarrow> c)"

text \<open>\<^verbatim>\<open>substStep\<close> reads one item at the head of the template: what it stands for and
  how many characters of the template it takes.\<close>

definition substStep ::
  "string \<Rightarrow> string \<Rightarrow> nat \<Rightarrow> string option list \<Rightarrow> string \<Rightarrow> string \<times> nat" where
  "substStep matched str position captures template =
     (case template of
        [] \<Rightarrow> ([], 1)
      | [c] \<Rightarrow> ([c], 1)
      | c # d # rest1 \<Rightarrow>
          if c \<noteq> CHR ''$'' then ([c], 1)
          else if d = CHR ''$'' then (''$'', 2)
          else if d = CHR ''&'' then (matched, 2)
          else if d = CHR 0x60 then (take position str, 2)
          else if d = CHR 0x27 then
            (drop (min (position + length matched) (length str)) str, 2)
          else if isDigit d then
            (let twoDigits = (case rest1 of [] \<Rightarrow> False | e # rest2 \<Rightarrow> isDigit e);
                 index2 = 10 * digitVal d + digitVal (hd rest1);
                 index1 = digitVal d
             in if twoDigits \<and> index2 \<le> length captures then
                  (if 1 \<le> index2 then (captureText captures index2, 3)
                   else (take 3 template, 3))
                else if 1 \<le> index1 \<and> index1 \<le> length captures then
                  (captureText captures index1, 2)
                else (take 2 template, 2))
          else ([c], 1))"

fun expandTemplate ::
  "string \<Rightarrow> string \<Rightarrow> nat \<Rightarrow> string option list \<Rightarrow> nat \<Rightarrow> string \<Rightarrow> string" where
  "expandTemplate matched str position captures skip [] = []"
| "expandTemplate matched str position captures skip (c # rest) =
     (if 0 < skip then expandTemplate matched str position captures (skip - 1) rest
      else (case substStep matched str position captures (c # rest) of
              (out, used) \<Rightarrow>
                out @ expandTemplate matched str position captures (used - 1) rest))"

definition getSubstitution ::
  "string \<Rightarrow> string \<Rightarrow> nat \<Rightarrow> string option list \<Rightarrow> string \<Rightarrow> string" where
  "getSubstitution matched str position captures template =
     expandTemplate matched str position captures 0 template"

fun buildReplaced :: "string \<Rightarrow> string \<Rightarrow> MatchResult list \<Rightarrow> nat \<Rightarrow> string" where
  "buildReplaced s template [] nextSourcePosition = drop nextSourcePosition s"
| "buildReplaced s template (r # rs) nextSourcePosition =
     (let position = min (m_index r) (length s);
          matched = take (m_length r) (drop (m_index r) s);
          replacement = getSubstitution matched s position (m_captures r) template
      in if nextSourcePosition \<le> position then
           take (position - nextSourcePosition) (drop nextSourcePosition s) @ replacement
             @ buildReplaced s template rs (position + m_length r)
         else buildReplaced s template rs nextSourcePosition)"

definition replaceRegExp :: "string \<Rightarrow> RegExp \<Rightarrow> string \<Rightarrow> string" where
  "replaceRegExp s re template =
     (let results =
            (if re_global re then collectMatches (re_matcher re) (re_sticky re) s 0
             else (case fst (regExpExec re s) of None \<Rightarrow> [] | Some r \<Rightarrow> [r]))
      in buildReplaced s template results 0)"

section \<open>The host\<close>

text \<open>
  The file system is the host's. \<^verbatim>\<open>applyPlan\<close> reaches it through six calls of
  \<^verbatim>\<open>fs/promises\<close>; each is a function of the disk, which stays abstract (\<^typ>\<open>'fs\<close>).
  \<^verbatim>\<open>stat\<close> and \<^verbatim>\<open>readFile\<close> return a value or raise and leave the disk as it is; the
  four mutating calls return the new disk and how they completed. Every call made is
  appended to a log, so that "no file system call" is a statement about the log.
\<close>

datatype Completion = Normal | Throws exn

record Stats =
  st_isFile :: bool
  st_size :: nat
  st_mtimeMs :: nat

datatype FsCall =
    StatCall string
  | ReadFileCall string
  | WriteFileCall string string
  | MkdirCall string
  | RenameCall string string
  | RmCall string

record 'fs Host =
  host_cwd :: string
  host_stat :: "'fs \<Rightarrow> string \<Rightarrow> exn + Stats"
  host_readFile :: "'fs \<Rightarrow> string \<Rightarrow> exn + string"
  host_writeFile :: "'fs \<Rightarrow> string \<Rightarrow> string \<Rightarrow> 'fs \<times> Completion"
  host_mkdir :: "'fs \<Rightarrow> string \<Rightarrow> 'fs \<times> Completion"
  host_rename :: "'fs \<Rightarrow> string \<Rightarrow> string \<Rightarrow> 'fs \<times> Completion"
  host_rm :: "'fs \<Rightarrow> string \<Rightarrow> 'fs \<times> Completion"
  host_compile :: "string \<Rightarrow> string \<Rightarrow> exn + Matcher"

fun isMutation :: "FsCall \<Rightarrow> bool" where
  "isMutation (StatCall p) = False"
| "isMutation (ReadFileCall p) = False"
| "isMutation (WriteFileCall p c) = True"
| "isMutation (MkdirCall p) = True"
| "isMutation (RenameCall p q) = True"
| "isMutation (RmCall p) = True"

section \<open>Operations, plans and results\<close>

datatype Mode = Literal | Regex

record ReplaceTextOp =
  rt_path :: string
  rt_mode :: Mode
  rt_search :: string
  rt_replace :: string
  rt_flags :: "string option"

text \<open>\<^verbatim>\<open>OtherOp tag\<close> is an operation object whose \<^verbatim>\<open>op\<close> field is none of the four known
  tags.\<close>

datatype FsOperation =
    MkdirOp string
  | MoveOp string string
  | DeleteOp string
  | ReplaceText ReplaceTextOp
  | OtherOp string

record ApplyPlanInput =
  in_root :: string
  in_operations :: "FsOperation list"
  in_commit :: bool

record PreviewLine =
  pv_title :: string
  pv_detail :: "string option"

record ApplyPlanResult =
  res_ok :: bool
  res_root :: string
  res_preview :: "PreviewLine list"
  res_errors :: "string list"

text \<open>What a run of \<^verbatim>\<open>applyPlan\<close> has built so far: the two arrays \<^verbatim>\<open>preview\<close> and
  \<^verbatim>\<open>errors\<close>, the disk and the log of calls.\<close>

record 'fs RunState =
  st_disk :: 'fs
  st_calls :: "FsCall list"
  st_preview :: "PreviewLine list"
  st_errors :: "string list"

definition verbReplaced :: string where
  "verbReplaced = [CHR 0xE6, CHR 0x9B, CHR 0xBF, CHR 0xE6, CHR 0x8D, CHR 0xA2]"

definition verbWillReplace :: string where
  "verbWillReplace = [CHR 0xE5, CHR 0xB0, CHR 0x86, CHR 0xE6, CHR 0x9B, CHR 0xBF, CHR 0xE6, CHR 0x8D, CHR 0xA2]"

definition verbMkdir :: string where
  "verbMkdir = [CHR 0xE5, CHR 0x88, CHR 0x9B, CHR 0xE5, CHR 0xBB, CHR 0xBA, CHR 0xE7, CHR 0x9B, CHR 0xAE, CHR 0xE5, CHR 0xBD, CHR 0x95]"

definition verbWillMkdir :: string where
  "verbWillMkdir = [CHR 0xE5, CHR 0xB0, CHR 0x86, CHR 0xE5, CHR 0x88, CHR 0x9B, CHR 0xE5, CHR 0xBB, CHR 0xBA, CHR 0xE7, CHR 0x9B, CHR 0xAE, CHR 0xE5, CHR 0xBD, CHR 0x95]"

definition verbMove :: string where
  "verbMove = [CHR 0xE7, CHR 0xA7, CHR 0xBB, CHR 0xE5, CHR 0x8A, CHR 0xA8]"

definition verbWillMove :: string where
  "verbWillMove = [CHR 0xE5, CHR 0xB0, CHR 0x86, CHR 0xE7, CHR 0xA7, CHR 0xBB, CHR 0xE5, CHR 0x8A, CHR 0xA8]"

definition verbDelete :: string where
  "verbDelete = [CHR 0xE5, CHR 0x88, CHR 0xA0, CHR 0xE9, CHR 0x99, CHR 0xA4]"

definition verbWillDelete :: string where
  "verbWillDelete = [CHR 0xE5, CHR 0xB0, CHR 0x86, CHR 0xE5, CHR 0x88, CHR 0xA0, CHR 0xE9, CHR 0x99, CHR 0xA4]"

definition arrow :: string where
  "arrow = '' '' @ [CHR 0xE2, CHR 0x86, CHR 0x92] @ '' ''"

definition detailPrefix :: string where
  "detailPrefix = [CHR 0xE5, CHR 0x8C, CHR 0xB9, CHR 0xE9, CHR 0x85, CHR 0x8D, CHR 0xE6, CHR 0xAC, CHR 0xA1, CHR 0xE6, CHR 0x95, CHR 0xB0, CHR 0xEF, CHR 0xBC, CHR 0x9A]"

text \<open>A number in a template literal is printed in decimal.\<close>

function showNat :: "nat \<Rightarrow> string" where
  "showNat n =
     (if n < 10 then [char_of (48 + n)]
      else showNat (n div 10) @ [char_of (48 + n mod 10)])"
  by pat_completeness auto
termination
  by (relation "measure id") auto

text \<open>The preview lines the executor writes, one form for each kind of operation.\<close>

definition mkdirLine :: "bool \<Rightarrow> string \<Rightarrow> PreviewLine" where
  "mkdirLine commit path =
     \<lparr>pv_title = (if commit then verbMkdir else verbWillMkdir) @ '' '' @ path,
      pv_detail = None\<rparr>"

definition moveLine :: "bool \<Rightarrow> string \<Rightarrow> string \<Rightarrow> PreviewLine" where
  "moveLine commit from to =
     \<lparr>pv_title = (if commit then verbMove else verbWillMove) @ '' '' @ from @ arrow @ to,
      pv_detail = None\<rparr>"

definition deleteLine :: "bool \<Rightarrow> string \<Rightarrow> PreviewLine" where
  "deleteLine commit path =
     \<lparr>pv_title = (if commit then verbDelete else verbWillDelete) @ '' '' @ path,
      pv_detail = None\<rparr>"

definition replaceLine :: "bool \<Rightarrow> string \<Rightarrow> nat \<Rightarrow> PreviewLine" where
  "replaceLine commit path matchCount =
     \<lparr>pv_title = (if commit then verbReplaced else verbWillReplace) @ '' '' @ path,
      pv_detail = Some (detailPrefix @ showNat matchCount)\<rparr>"

definition pushPreview :: "PreviewLine \<Rightarrow> 'fs RunState \<Rightarrow> 'fs RunState" where
  "pushPreview line st = st\<lparr>st_preview := st_preview st @ [line]\<rparr>"

definition logCall :: "FsCall \<Rightarrow> 'fs RunState \<Rightarrow> 'fs RunState" where
  "logCall c st = st\<lparr>st_calls := st_calls st @ [c]\<rparr>"

section \<open>The executor\<close>

definition execMkdir :: "'fs Host \<Rightarrow> string \<Rightarrow> string \<Rightarrow> 'fs RunState \<Rightarrow> Completion \<times> 'fs RunState" where
  "execMkdir h rootWithSep rel st =
     (case ensureWithinRoot (host_cwd h) rootWithSep rel of
        Inl e \<Rightarrow> (Throws e, st)
      | Inr absP \<Rightarrow>
          (case host_mkdir h (st_disk st) absP of
             (d, r) \<Rightarrow> (r, logCall (MkdirCall absP) (st\<lparr>st_disk := d\<rparr>))))"

definition execMove ::
  "'fs Host \<Rightarrow> string \<Rightarrow> string \<Rightarrow> string \<Rightarrow> 'fs RunState \<Rightarrow> Completion \<times> 'fs RunState" where
  "execMove h rootWithSep fromRel toRelPath st =
     (case ensureWithinRoot (host_cwd h) rootWithSep fromRel of
        Inl e \<Rightarrow> (Throws e, st)
      | Inr fromAbs \<Rightarrow>
          (case ensureWithinRoot (host_cwd h) rootWithSep toRelPath of
             Inl e \<Rightarrow> (Throws e, st)
           | Inr toAbs \<Rightarrow>
               (case host_mkdir h (st_disk st) (dirname toAbs) of
                  (d1, r1) \<Rightarrow>
                    let st1 = logCall (MkdirCall (dirname toAbs)) (st\<lparr>st_disk := d1\<rparr>)
                    in (case r1 of
                          Throws e \<Rightarrow> (Throws e, st1)
                        | Normal \<Rightarrow>
                            (case host_rename h d1 fromAbs toAbs of
                               (d2, r2) \<Rightarrow>
                                 (r2, logCall (RenameCall fromAbs toAbs)
                                        (st1\<lparr>st_disk := d2\<rparr>)))))))"

definition execDelete :: "'fs Host \<Rightarrow> string \<Rightarrow> string \<Rightarrow> 'fs RunState \<Rightarrow> Completion \<times> 'fs RunState" where
  "execDelete h rootWithSep rel st =
     (case ensureWithinRoot (host_cwd h) rootWithSep rel of
        Inl e \<Rightarrow> (Throws e, st)
      | Inr absP \<Rightarrow>
          (case host_rm h (st_disk st) absP of
             (d, r) \<Rightarrow> (r, logCall (RmCall absP) (st\<lparr>st_disk := d\<rparr>))))"

text \<open>The two branches of \<^verbatim>\<open>execReplace\<close> that compute \<^verbatim>\<open>matchCount\<close> and \<^verbatim>\<open>next\<close> from
  the text read. The regular expression branch may raise, and may not return.\<close>

definition computeReplace ::
  "(string \<Rightarrow> string \<Rightarrow> exn + Matcher) \<Rightarrow> ReplaceTextOp \<Rightarrow> string \<Rightarrow> (exn + nat \<times> string) option" where
  "computeReplace compile rop raw =
     (if rt_mode rop = Regex then
        let flags = (case rt_flags rop of Some f \<Rightarrow> f | None \<Rightarrow> ''g'')
        in (case newRegExp compile (rt_search rop)
                    (if CHR ''g'' \<in> set flags then flags else flags @ ''g'') of
              Inl e \<Rightarrow> Some (Inl e)
            | Inr re \<Rightarrow>
                (case countMatchesRegex compile raw re of
                   None \<Rightarrow> None
                 | Some (Inl e) \<Rightarrow> Some (Inl e)
                 | Some (Inr matchCount) \<Rightarrow>
                     Some (Inr (matchCount, replaceRegExp raw re (rt_replace rop)))))
      else
        Some (Inr (countMatchesLiteral raw (rt_search rop),
                   replaceLiteral raw (rt_search rop) (rt_replace rop))))"

definition execReplace ::
  "'fs Host \<Rightarrow> bool \<Rightarrow> string \<Rightarrow> ReplaceTextOp \<Rightarrow> 'fs RunState \<Rightarrow> (Completion \<times> 'fs RunState) option" where
  "execReplace h commit rootWithSep rop st =
     (case ensureWithinRoot (host_cwd h) rootWithSep (rt_path rop) of
        Inl e \<Rightarrow> Some (Throws e, st)
      | Inr absP \<Rightarrow>
          let st1 = logCall (StatCall absP) st
          in (case host_stat h (st_disk st) absP of
                Inl e \<Rightarrow> Some (Throws e, st1)
              | Inr s \<Rightarrow>
                  if \<not> st_isFile s then Some (Throws (NotAFile (rt_path rop)), st1)
                  else if 2 * 1024 * 1024 < st_size s then
                    Some (Throws (FileTooLarge (rt_path rop)), st1)
                  else
                    let st2 = logCall (ReadFileCall absP) st1
                    in (case host_readFile h (st_disk st) absP of
                          Inl e \<Rightarrow> Some (Throws e, st2)
                        | Inr raw \<Rightarrow>
                            (case computeReplace (host_compile h) rop raw of
                               None \<Rightarrow> None
                             | Some (Inl e) \<Rightarrow> Some (Throws e, st2)
                             | Some (Inr (matchCount, next)) \<Rightarrow>
                                 let st3 = pushPreview
                                             (replaceLine commit (rt_path rop) matchCount) st2
                                 in if \<not> commit then Some (Normal, st3)
                                    else if next = raw then Some (Normal, st3)
                                    else (case host_writeFile h (st_disk st3) absP next of
                                            (d, r) \<Rightarrow>
                                              Some (r, logCall (WriteFileCall absP next)
                                                         (st3\<lparr>st_disk := d\<rparr>)))))))"

text \<open>The body of the \<^verbatim>\<open>try\<close> block of the loop of \<^verbatim>\<open>applyPlan\<close>, for one operation.\<close>

definition tryBody ::
  "'fs Host \<Rightarrow> bool \<Rightarrow> string \<Rightarrow> FsOperation \<Rightarrow> 'fs RunState \<Rightarrow> (Completion \<times> 'fs RunState) option" where
  "tryBody h commit rootWithSep operation st =
     (case operation of
        MkdirOp path \<Rightarrow>
          let st1 = pushPreview (mkdirLine commit path) st
          in if commit then Some (execMkdir h rootWithSep path st1) else Some (Normal, st1)
      | MoveOp from to \<Rightarrow>
          let st1 = pushPreview (moveLine commit from to) st
          in if commit then Some (execMove h rootWithSep from to st1) else Some (Normal, st1)
      | DeleteOp path \<Rightarrow>
          let st1 = pushPreview (deleteLine commit path) st
          in if commit then Some (execDelete h rootWithSep path st1) else Some (Normal, st1)
      | ReplaceText rop \<Rightarrow> execReplace h commit rootWithSep rop st
      | OtherOp tag \<Rightarrow> Some (Throws (UnknownOperation tag), st))"

text \<open>The \<^verbatim>\<open>catch\<close> clause: \<^verbatim>\<open>errors.push(e?.message ? String(e.message) : ...)\<close>.\<close>

definition catchMessage :: "exn \<Rightarrow> string" where
  "catchMessage e = (if message e \<noteq> [] then message e else msgUnknownError)"

definition processOp ::
  "'fs Host \<Rightarrow> bool \<Rightarrow> string \<Rightarrow> FsOperation \<Rightarrow> 'fs RunState \<Rightarrow> 'fs RunState option" where
  "processOp h commit rootWithSep operation st =
     (case tryBody h commit rootWithSep operation st of
        None \<Rightarrow> None
      | Some (Normal, st') \<Rightarrow> Some st'
      | Some (Throws e, st') \<Rightarrow> Some (st'\<lparr>st_errors := st_errors st' @ [catchMessage e]\<rparr>))"

fun forEachOp ::
  "'fs Host \<Rightarrow> bool \<Rightarrow> string \<Rightarrow> FsOperation list \<Rightarrow> 'fs RunState \<Rightarrow> 'fs RunState option" where
  "forEachOp h commit rootWithSep [] st = Some st"
| "forEachOp h commit rootWithSep (operation # ops) st =
     (case processOp h commit rootWithSep operation st of
        None \<Rightarrow> None
      | Some st' \<Rightarrow> forEachOp h commit rootWithSep ops st')"

definition initialState :: "'fs \<Rightarrow> 'fs RunState" where
  "initialState disk = \<lparr>st_disk = disk, st_calls = [], st_preview = [], st_errors = []\<rparr>"

text \<open>\<^verbatim>\<open>applyPlan\<close> returns its result; the model returns with it the disk it leaves and
  the calls it made. \<open>None\<close> is a run that does not return.\<close>

definition applyPlan ::
  "'fs Host \<Rightarrow> 'fs \<Rightarrow> ApplyPlanInput \<Rightarrow> (ApplyPlanResult \<times> 'fs \<times> FsCall list) option" where
  "applyPlan h disk input =
     (let rootWithSep = normalizeRoot (host_cwd h) (in_root input)
      in case forEachOp h (in_commit input) rootWithSep (in_operations input)
                (initialState disk) of
           None \<Rightarrow> None
         | Some st \<Rightarrow>
             Some (\<lparr>res_ok = (length (st_errors st) = 0), res_root = rootWithSep,
                    res_preview = st_preview st, res_errors = st_errors st\<rparr>,
                   st_disk st, st_calls st))"

section \<open>The directory walker\<close>

text \<open>
  \<^verbatim>\<open>listDirectory\<close> walks the tree below the root. The tree is what the walk meets: a
  regular file, a directory with its entries, a directory that \<^verbatim>\<open>readdir\<close> cannot read,
  an entry that is neither file nor directory (a link, a socket, a device), and an entry
  on which \<^verbatim>\<open>stat\<close> raises (a link to nothing). Directory entries do not follow links,
  so the tree is finite.
\<close>

datatype Node =
    FileNode Stats
  | DirNode Stats "(string \<times> Node) list"
  | LockedDir Stats exn
  | OtherNode Stats
  | BrokenNode exn

datatype EntryType = FileType | DirType

record FsEntry =
  e_path :: string
  e_type :: EntryType
  e_size :: nat
  e_mtimeMs :: nat

text \<open>The cap \<^verbatim>\<open>maxEntries\<close> is a JavaScript number, and the handler of \<^verbatim>\<open>fs:list\<close> passes
  on whatever has the type \<^verbatim>\<open>number\<close>: a finite number, which need not be an integer (every
  finite double is a rational number), an infinity, or \<^verbatim>\<open>NaN\<close>.\<close>

datatype JsNumber = Finite rat | PosInfinity | NegInfinity | NaN

text \<open>The test \<^verbatim>\<open>out.length >= maxEntries\<close>; a comparison with \<^verbatim>\<open>NaN\<close> is false.\<close>

fun lengthGe :: "nat \<Rightarrow> JsNumber \<Rightarrow> bool" where
  "lengthGe n (Finite r) = (r \<le> of_nat n)"
| "lengthGe n PosInfinity = False"
| "lengthGe n NegInfinity = True"
| "lengthGe n NaN = False"

text \<open>The \<^verbatim>\<open>for\<close> loop of \<^verbatim>\<open>walk\<close> over the entries of \<^verbatim>\<open>absDir\<close>, with the array
  \<^verbatim>\<open>out\<close> built so far. Each entry is passed to \<^verbatim>\<open>stat\<close> before its kind is looked at.
  The call \<^verbatim>\<open>walk(absP)\<close> on a sub-directory is written out in place: the test of the
  cap, then \<^verbatim>\<open>readdir\<close>, then the loop on the entries of the sub-directory.\<close>

fun walkItems ::
  "JsNumber \<Rightarrow> string \<Rightarrow> string \<Rightarrow> string \<Rightarrow> (string \<times> Node) list \<Rightarrow> FsEntry list
     \<Rightarrow> exn + FsEntry list" where
  "walkItems maxEntries cwd rootWithSep absDir [] out = Inr out"
| "walkItems maxEntries cwd rootWithSep absDir ((name, node) # items) out =
     (if lengthGe (length out) maxEntries then Inr out
      else
        let absP = pathJoin absDir name
        in (case node of
              BrokenNode e \<Rightarrow> Inl e
            | OtherNode st \<Rightarrow> walkItems maxEntries cwd rootWithSep absDir items out
            | FileNode st \<Rightarrow>
                walkItems maxEntries cwd rootWithSep absDir items
                  (out @ [\<lparr>e_path = toRel cwd rootWithSep absP, e_type = FileType,
                            e_size = st_size st, e_mtimeMs = st_mtimeMs st\<rparr>])
            | LockedDir st e \<Rightarrow>
                let out1 = out @ [\<lparr>e_path = toRel cwd rootWithSep absP, e_type = DirType,
                                    e_size = 0, e_mtimeMs = st_mtimeMs st\<rparr>]
                in if lengthGe (length out1) maxEntries
                   then walkItems maxEntries cwd rootWithSep absDir items out1
                   else Inl e
            | DirNode st children \<Rightarrow>
                let out1 = out @ [\<lparr>e_path = toRel cwd rootWithSep absP, e_type = DirType,
                                    e_size = 0, e_mtimeMs = st_mtimeMs st\<rparr>]
                in if lengthGe (length out1) maxEntries
                   then walkItems maxEntries cwd rootWithSep absDir items out1
                   else (case walkItems maxEntries cwd rootWithSep absP children out1 of
                           Inl e \<Rightarrow> Inl e
                         | Inr out2 \<Rightarrow>
                             walkItems maxEntries cwd rootWithSep absDir items out2)))"

text \<open>\<^verbatim>\<open>walk(absDir)\<close> itself, given what \<^verbatim>\<open>readdir\<close> returns on \<^verbatim>\<open>absDir\<close>: the test
  of the cap comes before the directory is read.\<close>

definition walk ::
  "JsNumber \<Rightarrow> string \<Rightarrow> string \<Rightarrow> string \<Rightarrow> exn + (string \<times> Node) list \<Rightarrow> FsEntry list
     \<Rightarrow> exn + FsEntry list" where
  "walk maxEntries cwd rootWithSep absDir dir out =
     (if lengthGe (length out) maxEntries then Inr out
      else (case dir of
              Inl e \<Rightarrow> Inl e
            | Inr items \<Rightarrow> walkItems maxEntries cwd rootWithSep absDir items out))"

text \<open>\<^verbatim>\<open>listDirectory(root, opts)\<close>; \<^verbatim>\<open>rootDir\<close> is what \<^verbatim>\<open>readdir\<close> gives on the
  root, and the cap is 5000 when the caller gives none.\<close>

definition listDirectory ::
  "string \<Rightarrow> string \<Rightarrow> JsNumber option \<Rightarrow> exn + (string \<times> Node) list
     \<Rightarrow> exn + FsEntry list" where
  "listDirectory cwd root optsMaxEntries rootDir =
     (let rootWithSep = normalizeRoot cwd root;
          maxEntries = (case optsMaxEntries of Some n \<Rightarrow> n | None \<Rightarrow> Finite 5000)
      in walk maxEntries cwd rootWithSep rootWithSep rootDir [])"

section \<open>A host in memory\<close>

text \<open>
  To run the executor on concrete plans: a disk that maps absolute paths to files (with
  the size \<^verbatim>\<open>stat\<close> reports and the text \<^verbatim>\<open>readFile\<close> returns) and directories, and a
  pattern compiler for the patterns that are plain text, which match exactly their own
  characters. An empty pattern matches the empty string at every position.
\<close>

datatype DiskNode = DFile nat string | DDir

type_synonym Disk = "(string \<times> DiskNode) list"

definition memStat :: "Disk \<Rightarrow> string \<Rightarrow> exn + Stats" where
  "memStat d p =
     (case map_of d p of
        None \<Rightarrow> Inl (SystemError (''ENOENT: no such file or directory, stat '' @ p))
      | Some (DFile n c) \<Rightarrow> Inr \<lparr>st_isFile = True, st_size = n, st_mtimeMs = 0\<rparr>
      | Some DDir \<Rightarrow> Inr \<lparr>st_isFile = False, st_size = 0, st_mtimeMs = 0\<rparr>)"

definition memReadFile :: "Disk \<Rightarrow> string \<Rightarrow> exn + string" where
  "memReadFile d p =
     (case map_of d p of
        None \<Rightarrow> Inl (SystemError (''ENOENT: no such file or directory, open '' @ p))
      | Some (DFile n c) \<Rightarrow> Inr c
      | Some DDir \<Rightarrow> Inl (SystemError ''EISDIR: illegal operation on a directory, read''))"

definition memWriteFile :: "Disk \<Rightarrow> string \<Rightarrow> string \<Rightarrow> Disk \<times> Completion" where
  "memWriteFile d p c =
     (case map_of d p of
        Some DDir \<Rightarrow> (d, Throws (SystemError ''EISDIR: illegal operation on a directory, open''))
      | _ \<Rightarrow> ((p, DFile (length c) c) # filter (\<lambda>(q, n). q \<noteq> p) d, Normal))"

definition memMkdir :: "Disk \<Rightarrow> string \<Rightarrow> Disk \<times> Completion" where
  "memMkdir d p =
     (case map_of d p of
        Some (DFile n c) \<Rightarrow> (d, Throws (SystemError (''EEXIST: file already exists, mkdir '' @ p)))
      | Some DDir \<Rightarrow> (d, Normal)
      | None \<Rightarrow> ((p, DDir) # d, Normal))"

definition memRename :: "Disk \<Rightarrow> string \<Rightarrow> string \<Rightarrow> Disk \<times> Completion" where
  "memRename d p q =
     (case map_of d p of
        None \<Rightarrow> (d, Throws (SystemError (''ENOENT: no such file or directory, rename '' @ p)))
      | Some n \<Rightarrow> ((q, n) # filter (\<lambda>(k, v). k \<noteq> p \<and> k \<noteq> q) d, Normal))"

definition memRm :: "Disk \<Rightarrow> string \<Rightarrow> Disk \<times> Completion" where
  "memRm d p = (filter (\<lambda>(k, v). k \<noteq> p \<and> \<not> prefix (p @ ''/'') k) d, Normal)"

definition isPlainChar :: "char \<Rightarrow> bool" where
  "isPlainChar c =
     (c \<in> set ''abcdefghijklmnopqrstuvwxyzABCDEFGHIJKLMNOPQRSTUVWXYZ0123456789 '')"

definition plainMatcher :: "string \<Rightarrow> Matcher" where
  "plainMatcher source s i =
     (if prefix source (drop i s) then Some (length source, []) else None)"

definition memCompile :: "string \<Rightarrow> string \<Rightarrow> exn + Matcher" where
  "memCompile source flags =
     (if \<not> (set flags \<subseteq> set ''gy'' \<and> distinct flags) then
        Inl (SyntaxError (''Invalid flags supplied to RegExp constructor '' @ flags))
      else if \<not> list_all isPlainChar source then
        Inl (SyntaxError (''Invalid regular expression: '' @ source))
      else Inr (plainMatcher source))"

definition memHost :: "Disk Host" where
  "memHost = \<lparr>host_cwd = ''/home/user'', host_stat = memStat, host_readFile = memReadFile,
     host_writeFile = memWriteFile, host_mkdir = memMkdir, host_rename = memRename,
     host_rm = memRm, host_compile = memCompile\<rparr>"

text \<open>A small disk for the examples below.\<close>

definition exampleDisk :: Disk where
  "exampleDisk =
     [(''/proj'', DDir), (''/proj/a.txt'', DFile 5 ''aXaXa''),
      (''/proj/abc.txt'', DFile 3 ''abc''), (''/proj/aaa.txt'', DFile 3 ''aaa'')]"

definition largeFileDisk :: Disk where
  "largeFileDisk = [(''/proj'', DDir), (''/proj/big.bin'', DFile 3000000 [])]"

section \<open>Notions used in the statements\<close>

text \<open>A relative path that contains a \<^verbatim>\<open>..\<close> segment and that the sandbox resolves to a
  place outside the root: the resolved path does not start with the root.\<close>

definition resolvesOutside :: "string \<Rightarrow> string \<Rightarrow> string \<Rightarrow> bool" where
  "resolvesOutside cwd rootWithSep relPath =
     (''..'' \<in> set (segments relPath) \<and>
      \<not> startsWith
          (resolve cwd [rootWithSep,
             dropWhile (\<lambda>c. c = CHR 0x5C \<or> c = CHR ''/'') (normalize relPath)])
          rootWithSep)"

text \<open>What one operation adds to the two lists of the result: the preview lines \<open>pv\<close> and
  the errors \<open>er\<close>. A generic operation always adds its line, and in a committing run may
  add an error after it; a text replacement adds either one error and no line, or its
  line (and, in a committing run, possibly an error of the write that follows); an
  operation with an unknown tag adds one error.\<close>

definition contributes :: "bool \<Rightarrow> FsOperation \<Rightarrow> PreviewLine list \<times> string list \<Rightarrow> bool" where
  "contributes commit operation c =
     (case c of
        (pv, er) \<Rightarrow>
          length er \<le> 1 \<and>
          (case operation of
             MkdirOp p \<Rightarrow> pv = [mkdirLine commit p] \<and> (commit \<or> er = [])
           | MoveOp f t \<Rightarrow> pv = [moveLine commit f t] \<and> (commit \<or> er = [])
           | DeleteOp p \<Rightarrow> pv = [deleteLine commit p] \<and> (commit \<or> er = [])
           | ReplaceText rop \<Rightarrow>
               (pv = [] \<and> length er = 1) \<or>
               ((\<exists>n. pv = [replaceLine commit (rt_path rop) n]) \<and> (commit \<or> er = []))
           | OtherOp tag \<Rightarrow> pv = [] \<and> er = [msgUnknownOp @ tag]))"

text \<open>Literal matching as the specification words it: the text is scanned from left to
  right; where the search string occurs, the occurrence is counted (or replaced) and the
  scan goes on after it, so occurrences never overlap; elsewhere the scan moves on by one
  character.\<close>

function scanCount :: "string \<Rightarrow> string \<Rightarrow> nat" where
  "scanCount s [] = 0"
| "scanCount s (c # cs) =
     (if s \<noteq> [] \<and> prefix s (c # cs) then Suc (scanCount s (drop (length s) (c # cs)))
      else scanCount s cs)"
  by pat_completeness auto
termination
  by (relation "measure (\<lambda>(s, t). length t)") auto

function scanReplace :: "string \<Rightarrow> string \<Rightarrow> string \<Rightarrow> string" where
  "scanReplace s r [] = []"
| "scanReplace s r (c # cs) =
     (if s \<noteq> [] \<and> prefix s (c # cs) then r @ scanReplace s r (drop (length s) (c # cs))
      else c # scanReplace s r cs)"
  by pat_completeness auto
termination
  by (relation "measure (\<lambda>(s, r, t). length t)") auto

text \<open>The walk with no cap, as the specification describes it: a file is one entry, a
  directory is one entry followed by the walk of what it holds, anything else is skipped.
  The walk ends at the first \<^verbatim>\<open>stat\<close> or \<^verbatim>\<open>readdir\<close> that raises; \<^verbatim>\<open>uncapped\<close> gives the
  entries listed up to there, and what was raised.\<close>

fun uncapped ::
  "string \<Rightarrow> string \<Rightarrow> string \<Rightarrow> (string \<times> Node) list \<Rightarrow> FsEntry list \<times> exn option" where
  "uncapped cwd rootWithSep absDir [] = ([], None)"
| "uncapped cwd rootWithSep absDir ((name, node) # items) =
     (case node of
        BrokenNode e \<Rightarrow> ([], Some e)
      | OtherNode st \<Rightarrow> uncapped cwd rootWithSep absDir items
      | FileNode st \<Rightarrow>
          (case uncapped cwd rootWithSep absDir items of
             (es, err) \<Rightarrow>
               (\<lparr>e_path = toRel cwd rootWithSep (pathJoin absDir name), e_type = FileType,
                 e_size = st_size st, e_mtimeMs = st_mtimeMs st\<rparr> # es, err))
      | LockedDir st e \<Rightarrow>
          ([\<lparr>e_path = toRel cwd rootWithSep (pathJoin absDir name), e_type = DirType,
             e_size = 0, e_mtimeMs = st_mtimeMs st\<rparr>], Some e)
      | DirNode st children \<Rightarrow>
          (case uncapped cwd rootWithSep (pathJoin absDir name) children of
             (cs, Some e) \<Rightarrow>
               (\<lparr>e_path = toRel cwd rootWithSep (pathJoin absDir name), e_type = DirType,
                 e_size = 0, e_mtimeMs = st_mtimeMs st\<rparr> # cs, Some e)
           | (cs, None) \<Rightarrow>
               (case uncapped cwd rootWithSep absDir items of
                  (es, err) \<Rightarrow>
                    (\<lparr>e_path = toRel cwd rootWithSep (pathJoin absDir name), e_type = DirType,
                      e_size = 0, e_mtimeMs = st_mtimeMs st\<rparr> # cs @ es, err))))"

text \<open>The number of entries at which a cap is reached: the least length that is at
  least the cap, if there is one.\<close>

fun limit :: "JsNumber \<Rightarrow> nat option" where
  "limit (Finite r) = Some (nat \<lceil>r\<rceil>)"
| "limit PosInfinity = None"
| "limit NegInfinity = Some 0"
| "limit NaN = None"

text \<open>A walk that stops at a limit: when the walk with no cap lists that many entries
  before anything is raised, the first of them are returned and nothing is raised;
  otherwise the outcome is that of the walk with no cap.\<close>

fun cappedAt :: "nat option \<Rightarrow> FsEntry list \<times> exn option \<Rightarrow> exn + FsEntry list" where
  "cappedAt lim (es, err) =
     (if (case lim of None \<Rightarrow> False | Some m \<Rightarrow> m \<le> length es) then Inr (take (the lim) es)
      else (case err of None \<Rightarrow> Inr es | Some e \<Rightarrow> Inl e))"

definition fiveFiles :: "(string \<times> Node) list" where
  "fiveFiles =
     [(''a'', FileNode \<lparr>st_isFile = True, st_size = 1, st_mtimeMs = 10\<rparr>),
      (''b'', FileNode \<lparr>st_isFile = True, st_size = 2, st_mtimeMs = 20\<rparr>),
      (''c'', FileNode \<lparr>st_isFile = True, st_size = 3, st_mtimeMs = 30\<rparr>),
      (''d'', FileNode \<lparr>st_isFile = True, st_size = 4, st_mtimeMs = 40\<rparr>),
      (''e'', FileNode \<lparr>st_isFile = True, st_size = 5, st_mtimeMs = 50\<rparr>)]"

text \<open>A root with a directory of three entries, the last of which \<^verbatim>\<open>stat\<close> cannot read,
  and a file.\<close>

definition brokenLink :: "(string \<times> Node) list" where
  "brokenLink =
     [(''sub'', DirNode \<lparr>st_isFile = False, st_size = 4096, st_mtimeMs = 5\<rparr>
         [(''x'', FileNode \<lparr>st_isFile = True, st_size = 1, st_mtimeMs = 10\<rparr>),
          (''y'', FileNode \<lparr>st_isFile = True, st_size = 2, st_mtimeMs = 20\<rparr>),
          (''z'', BrokenNode (SystemError ''ENOENT''))]),
      (''c'', FileNode \<lparr>st_isFile = True, st_size = 3, st_mtimeMs = 30\<rparr>)]"

text \<open>Notions for the regular expression branch: a matcher that never matches the empty
  string in a text; the flags \<^verbatim>\<open>execReplace\<close> passes to the constructor; and the text
  obtained by replacing every match of a list, each by the expansion of the template.\<close>

definition neverEmpty :: "Matcher \<Rightarrow> string \<Rightarrow> bool" where
  "neverEmpty m s = (\<forall>i caps. m s i \<noteq> Some (0, caps))"

definition forcedFlags :: "string option \<Rightarrow> string" where
  "forcedFlags optFlags =
     (let flags = (case optFlags of Some f \<Rightarrow> f | None \<Rightarrow> ''g'')
      in if CHR ''g'' \<in> set flags then flags else flags @ ''g'')"

fun spliceAll :: "string \<Rightarrow> string \<Rightarrow> MatchResult list \<Rightarrow> nat \<Rightarrow> string" where
  "spliceAll s template [] pos = drop pos s"
| "spliceAll s template (r # rs) pos =
     take (m_index r - pos) (drop pos s)
       @ getSubstitution (take (m_length r) (drop (m_index r) s)) s (m_index r)
           (m_captures r) template
       @ spliceAll s template rs (m_index r + m_length r)"

section \<open>Properties of the executor\<close>

subsection \<open>Selectors of the run state\<close>

lemma logCall_simps [simp]:
  "st_disk (logCall c st) = st_disk st"
  "st_calls (logCall c st) = st_calls st @ [c]"
  "st_preview (logCall c st) = st_preview st"
  "st_errors (logCall c st) = st_errors st"
  by (simp_all add: logCall_def)

lemma pushPreview_simps [simp]:
  "st_disk (pushPreview l st) = st_disk st"
  "st_calls (pushPreview l st) = st_calls st"
  "st_preview (pushPreview l st) = st_preview st @ [l]"
  "st_errors (pushPreview l st) = st_errors st"
  by (simp_all add: pushPreview_def)

lemma initialState_simps [simp]:
  "st_disk (initialState d) = d"
  "st_calls (initialState d) = []"
  "st_preview (initialState d) = []"
  "st_errors (initialState d) = []"
  by (simp_all add: initialState_def)

lemma memHost_simps [simp]:
  "host_cwd memHost = ''/home/user''"
  "host_stat memHost = memStat"
  "host_readFile memHost = memReadFile"
  "host_writeFile memHost = memWriteFile"
  "host_mkdir memHost = memMkdir"
  "host_rename memHost = memRename"
  "host_rm memHost = memRm"
  "host_compile memHost = memCompile"
  by (simp_all add: memHost_def)

lemma message_own:
  "message InvalidPath = msgEmptyPath"
  "message (PathEscape p) = msgEscape @ p"
  "message (NotAFile p) = msgNotFile @ p"
  "message (FileTooLarge p) = msgTooLarge @ p"
  "message (UnknownOperation t) = msgUnknownOp @ t"
  by (simp_all add: InvalidPath_def PathEscape_def NotAFile_def FileTooLarge_def
      UnknownOperation_def)

lemma catchMessage_own:
  "catchMessage InvalidPath = msgEmptyPath"
  "catchMessage (PathEscape p) = msgEscape @ p"
  "catchMessage (NotAFile p) = msgNotFile @ p"
  "catchMessage (FileTooLarge p) = msgTooLarge @ p"
  "catchMessage (UnknownOperation t) = msgUnknownOp @ t"
  by (simp_all add: catchMessage_def InvalidPath_def PathEscape_def NotAFile_def
      FileTooLarge_def UnknownOperation_def msgEmptyPath_def msgEscape_def msgNotFile_def
      msgTooLarge_def msgUnknownOp_def)

subsection \<open>Text replacement, step by step\<close>

lemmas branch_simps =
  sum.case option.case prod.case Let_def if_True if_False not_True_eq_False not_False_eq_True

lemma execReplace_escape:
  "ensureWithinRoot (host_cwd h) rootWithSep (rt_path rop) = Inl e \<Longrightarrow>
   execReplace h commit rootWithSep rop st = Some (Throws e, st)"
  unfolding execReplace_def by (simp only: branch_simps)

lemma execReplace_stat_fails:
  "ensureWithinRoot (host_cwd h) rootWithSep (rt_path rop) = Inr absP \<Longrightarrow>
   host_stat h (st_disk st) absP = Inl e \<Longrightarrow>
   execReplace h commit rootWithSep rop st = Some (Throws e, logCall (StatCall absP) st)"
  unfolding execReplace_def by (simp only: branch_simps)

lemma execReplace_not_file:
  "ensureWithinRoot (host_cwd h) rootWithSep (rt_path rop) = Inr absP \<Longrightarrow>
   host_stat h (st_disk st) absP = Inr s \<Longrightarrow> \<not> st_isFile s \<Longrightarrow>
   execReplace h commit rootWithSep rop st =
     Some (Throws (NotAFile (rt_path rop)), logCall (StatCall absP) st)"
  unfolding execReplace_def by (simp only: branch_simps)

lemma execReplace_too_large:
  "ensureWithinRoot (host_cwd h) rootWithSep (rt_path rop) = Inr absP \<Longrightarrow>
   host_stat h (st_disk st) absP = Inr s \<Longrightarrow> st_isFile s \<Longrightarrow>
   2 * 1024 * 1024 < st_size s \<Longrightarrow>
   execReplace h commit rootWithSep rop st =
     Some (Throws (FileTooLarge (rt_path rop)), logCall (StatCall absP) st)"
  unfolding execReplace_def
  by (simp only: branch_simps)

lemma execReplace_read_fails:
  "ensureWithinRoot (host_cwd h) rootWithSep (rt_path rop) = Inr absP \<Longrightarrow>
   host_stat h (st_disk st) absP = Inr s \<Longrightarrow> st_isFile s \<Longrightarrow>
   \<not> 2 * 1024 * 1024 < st_size s \<Longrightarrow>
   host_readFile h (st_disk st) absP = Inl e \<Longrightarrow>
   execReplace h commit rootWithSep rop st =
     Some (Throws e, logCall (ReadFileCall absP) (logCall (StatCall absP) st))"
  unfolding execReplace_def
  by (simp only: branch_simps)

lemma execReplace_no_return:
  "ensureWithinRoot (host_cwd h) rootWithSep (rt_path rop) = Inr absP \<Longrightarrow>
   host_stat h (st_disk st) absP = Inr s \<Longrightarrow> st_isFile s \<Longrightarrow>
   \<not> 2 * 1024 * 1024 < st_size s \<Longrightarrow>
   host_readFile h (st_disk st) absP = Inr raw \<Longrightarrow>
   computeReplace (host_compile h) rop raw = None \<Longrightarrow>
   execReplace h commit rootWithSep rop st = None"
  unfolding execReplace_def
  by (simp only: branch_simps)

lemma execReplace_compute_fails:
  "ensureWithinRoot (host_cwd h) rootWithSep (rt_path rop) = Inr absP \<Longrightarrow>
   host_stat h (st_disk st) absP = Inr s \<Longrightarrow> st_isFile s \<Longrightarrow>
   \<not> 2 * 1024 * 1024 < st_size s \<Longrightarrow>
   host_readFile h (st_disk st) absP = Inr raw \<Longrightarrow>
   computeReplace (host_compile h) rop raw = Some (Inl e) \<Longrightarrow>
   execReplace h commit rootWithSep rop st =
     Some (Throws e, logCall (ReadFileCall absP) (logCall (StatCall absP) st))"
  unfolding execReplace_def
  by (simp only: branch_simps)

lemma execReplace_computed:
  assumes a1: "ensureWithinRoot (host_cwd h) rootWithSep (rt_path rop) = Inr absP"
    and a2: "host_stat h (st_disk st) absP = Inr s"
    and a3: "st_isFile s"
    and a4: "st_size s \<le> 2 * 1024 * 1024"
    and a5: "host_readFile h (st_disk st) absP = Inr raw"
    and a6: "computeReplace (host_compile h) rop raw = Some (Inr (matchCount, next))"
  shows "execReplace h commit rootWithSep rop st =
     (let st3 = pushPreview
            (replaceLine commit (rt_path rop) matchCount)
            (logCall (ReadFileCall absP) (logCall (StatCall absP) st))
      in if commit \<and> next \<noteq> raw then
           Some (snd (host_writeFile h (st_disk st) absP next),
                 logCall (WriteFileCall absP next)
                   (st3\<lparr>st_disk := fst (host_writeFile h (st_disk st) absP next)\<rparr>))
         else Some (Normal, st3))"
proof -
  from a4 have a4': "\<not> 2 * 1024 * 1024 < st_size s" by simp
  show ?thesis
    unfolding execReplace_def
    apply (simp only: a1 sum.case Let_def logCall_simps a2 a3 a4' a5 a6 option.case prod.case if_False if_True not_True_eq_False not_False_eq_True)
    apply (simp only: pushPreview_simps logCall_simps split: prod.splits)
    apply (cases "host_writeFile h (st_disk st) absP next")
    apply simp
    done
qed

text \<open>What one run of \<^verbatim>\<open>execReplace\<close> that returns leaves behind.\<close>

lemma execReplace_result:
  assumes run: "execReplace h commit rootWithSep rop st = Some (r, st')"
  shows "st_errors st' = st_errors st \<and>
    ((st_preview st' = st_preview st \<and> r \<noteq> Normal) \<or>
     (\<exists>n. st_preview st' = st_preview st @ [replaceLine commit (rt_path rop) n] \<and>
          (commit \<or> r = Normal))) \<and>
    (\<exists>cs. st_calls st' = st_calls st @ cs \<and>
       (\<not> commit \<longrightarrow> st_disk st' = st_disk st \<and> (\<forall>c \<in> set cs. \<not> isMutation c)))"
proof (cases "ensureWithinRoot (host_cwd h) rootWithSep (rt_path rop)")
  case (Inl e)
  from execReplace_escape [OF Inl] run have "r = Throws e" "st' = st" by simp_all
  then show ?thesis by simp
next
  case (Inr absP)
  note ens = Inr
  show ?thesis
  proof (cases "host_stat h (st_disk st) absP")
    case (Inl e)
    from execReplace_stat_fails [OF ens Inl] run
    have "r = Throws e" "st' = logCall (StatCall absP) st" by simp_all
    then show ?thesis by simp
  next
    case (Inr s)
    note stat = Inr
    show ?thesis
    proof (cases "st_isFile s")
      case False
      from execReplace_not_file [OF ens stat False] run
      have "r = Throws (NotAFile (rt_path rop))" "st' = logCall (StatCall absP) st" by simp_all
      then show ?thesis by simp
    next
      case True
      note isf = True
      show ?thesis
      proof (cases "2 * 1024 * 1024 < st_size s")
        case True
        from execReplace_too_large [OF ens stat isf True] run
        have "r = Throws (FileTooLarge (rt_path rop))" "st' = logCall (StatCall absP) st"
          by simp_all
        then show ?thesis by simp
      next
        case False
        note small = False
        show ?thesis
        proof (cases "host_readFile h (st_disk st) absP")
          case (Inl e)
          from execReplace_read_fails [OF ens stat isf small Inl] run
          have "r = Throws e"
            "st' = logCall (ReadFileCall absP) (logCall (StatCall absP) st)" by simp_all
          then show ?thesis by simp
        next
          case (Inr raw)
          note rd = Inr
          show ?thesis
          proof (cases "computeReplace (host_compile h) rop raw")
            case None
            from execReplace_no_return [OF ens stat isf small rd None] run show ?thesis by simp
          next
            case (Some res)
            show ?thesis
            proof (cases res)
              case (Inl e)
              with Some have "computeReplace (host_compile h) rop raw = Some (Inl e)" by simp
              from execReplace_compute_fails [OF ens stat isf small rd this] run
              have "r = Throws e"
                "st' = logCall (ReadFileCall absP) (logCall (StatCall absP) st)" by simp_all
              then show ?thesis by simp
            next
              case (Inr mc)
              obtain matchCount nxt where mc: "mc = (matchCount, nxt)" by (cases mc)
              with Some Inr
              have comp: "computeReplace (host_compile h) rop raw = Some (Inr (matchCount, nxt))"
                by simp
              from small have small': "st_size s \<le> 2 * 1024 * 1024" by simp
              note eq = execReplace_computed [OF ens stat isf small' rd comp, of commit]
              show ?thesis
              proof (cases "commit \<and> nxt \<noteq> raw")
                case True
                with eq run show ?thesis by (auto simp: Let_def)
              next
                case False
                with eq run show ?thesis by (auto simp: Let_def)
              qed
            qed
          qed
        qed
      qed
    qed
  qed
qed

lemma computeReplace_literal:
  "rt_mode rop = Literal \<Longrightarrow>
   computeReplace compile rop raw =
     Some (Inr (countMatchesLiteral raw (rt_search rop),
                replaceLiteral raw (rt_search rop) (rt_replace rop)))"
  by (simp add: computeReplace_def)

subsection \<open>The three generic operations\<close>

lemma execMkdir_escape:
  "ensureWithinRoot (host_cwd h) rootWithSep rel = Inl e \<Longrightarrow>
   execMkdir h rootWithSep rel st = (Throws e, st)"
  unfolding execMkdir_def by (simp only: branch_simps)

lemma execMkdir_within:
  "ensureWithinRoot (host_cwd h) rootWithSep rel = Inr absP \<Longrightarrow>
   execMkdir h rootWithSep rel st =
     (snd (host_mkdir h (st_disk st) absP),
      logCall (MkdirCall absP) (st\<lparr>st_disk := fst (host_mkdir h (st_disk st) absP)\<rparr>))"
  unfolding execMkdir_def by (simp only: branch_simps split: prod.splits) simp

lemma execDelete_escape:
  "ensureWithinRoot (host_cwd h) rootWithSep rel = Inl e \<Longrightarrow>
   execDelete h rootWithSep rel st = (Throws e, st)"
  unfolding execDelete_def by (simp only: branch_simps)

lemma execDelete_within:
  "ensureWithinRoot (host_cwd h) rootWithSep rel = Inr absP \<Longrightarrow>
   execDelete h rootWithSep rel st =
     (snd (host_rm h (st_disk st) absP),
      logCall (RmCall absP) (st\<lparr>st_disk := fst (host_rm h (st_disk st) absP)\<rparr>))"
  unfolding execDelete_def by (simp only: branch_simps split: prod.splits) simp

lemma execMove_escape_from:
  "ensureWithinRoot (host_cwd h) rootWithSep fromRel = Inl e \<Longrightarrow>
   execMove h rootWithSep fromRel toRelPath st = (Throws e, st)"
  unfolding execMove_def by (simp only: branch_simps)

lemma execMove_escape_to:
  "ensureWithinRoot (host_cwd h) rootWithSep fromRel = Inr fromAbs \<Longrightarrow>
   ensureWithinRoot (host_cwd h) rootWithSep toRelPath = Inl e \<Longrightarrow>
   execMove h rootWithSep fromRel toRelPath st = (Throws e, st)"
  unfolding execMove_def by (simp only: branch_simps)

lemma execMove_result:
  assumes "execMove h rootWithSep fromRel toRelPath st = (r, st')"
  shows "st_errors st' = st_errors st \<and> st_preview st' = st_preview st \<and>
         (\<exists>cs. st_calls st' = st_calls st @ cs)"
  using assms unfolding execMove_def
  by (auto simp: Let_def split: sum.splits prod.splits Completion.splits)

lemma execMkdir_result:
  assumes "execMkdir h rootWithSep rel st = (r, st')"
  shows "st_errors st' = st_errors st \<and> st_preview st' = st_preview st \<and>
         (\<exists>cs. st_calls st' = st_calls st @ cs)"
  using assms unfolding execMkdir_def
  by (auto simp: Let_def split: sum.splits prod.splits)

lemma execDelete_result:
  assumes "execDelete h rootWithSep rel st = (r, st')"
  shows "st_errors st' = st_errors st \<and> st_preview st' = st_preview st \<and>
         (\<exists>cs. st_calls st' = st_calls st @ cs)"
  using assms unfolding execDelete_def
  by (auto simp: Let_def split: sum.splits prod.splits)

subsection \<open>One turn of the loop\<close>

lemma tryBody_dry_run:
  "tryBody h False rootWithSep (MkdirOp p) st = Some (Normal, pushPreview (mkdirLine False p) st)"
  "tryBody h False rootWithSep (MoveOp f t) st = Some (Normal, pushPreview (moveLine False f t) st)"
  "tryBody h False rootWithSep (DeleteOp p) st = Some (Normal, pushPreview (deleteLine False p) st)"
  unfolding tryBody_def by (simp_all only: FsOperation.case branch_simps)

lemma tryBody_commit:
  "tryBody h True rootWithSep (MkdirOp p) st =
     Some (execMkdir h rootWithSep p (pushPreview (mkdirLine True p) st))"
  "tryBody h True rootWithSep (MoveOp f t) st =
     Some (execMove h rootWithSep f t (pushPreview (moveLine True f t) st))"
  "tryBody h True rootWithSep (DeleteOp p) st =
     Some (execDelete h rootWithSep p (pushPreview (deleteLine True p) st))"
  unfolding tryBody_def by (simp_all only: FsOperation.case branch_simps)

lemma tryBody_other:
  "tryBody h commit rootWithSep (ReplaceText rop) st = execReplace h commit rootWithSep rop st"
  "tryBody h commit rootWithSep (OtherOp tag) st = Some (Throws (UnknownOperation tag), st)"
  unfolding tryBody_def by (simp_all only: FsOperation.case)

lemma processOp_Normal:
  "tryBody h commit rootWithSep operation st = Some (Normal, st') \<Longrightarrow>
   processOp h commit rootWithSep operation st = Some st'"
  unfolding processOp_def by (simp only: branch_simps Completion.case)

lemma processOp_Throws:
  "tryBody h commit rootWithSep operation st = Some (Throws e, st') \<Longrightarrow>
   processOp h commit rootWithSep operation st =
     Some (st'\<lparr>st_errors := st_errors st' @ [catchMessage e]\<rparr>)"
  unfolding processOp_def by (simp only: branch_simps Completion.case)

lemma processOp_None:
  "processOp h commit rootWithSep operation st = None \<longleftrightarrow>
   tryBody h commit rootWithSep operation st = None"
  unfolding processOp_def by (auto split: option.splits prod.splits Completion.splits)

lemma processOp_cases:
  assumes "processOp h commit rootWithSep operation st = Some st'"
  obtains st0 where "tryBody h commit rootWithSep operation st = Some (Normal, st0)" "st' = st0"
  | e st0 where "tryBody h commit rootWithSep operation st = Some (Throws e, st0)"
      "st' = st0\<lparr>st_errors := st_errors st0 @ [catchMessage e]\<rparr>"
proof (cases "tryBody h commit rootWithSep operation st")
  case None
  with assms show ?thesis by (simp add: processOp_None [symmetric])
next
  case (Some a)
  obtain r st0 where a: "a = (r, st0)" by (cases a)
  show ?thesis
  proof (cases r)
    case Normal
    with Some a processOp_Normal [of h commit rootWithSep operation st st0] assms that(1)
    show ?thesis by simp
  next
    case (Throws e)
    with Some a processOp_Throws [of h commit rootWithSep operation st e st0] assms that(2)
    show ?thesis by simp
  qed
qed

lemma tryBody_dry_result:
  assumes "tryBody h False rootWithSep operation st = Some (r, st')"
  shows "st_disk st' = st_disk st \<and>
         (\<exists>cs. st_calls st' = st_calls st @ cs \<and> (\<forall>c \<in> set cs. \<not> isMutation c))"
proof (cases operation)
  case (MkdirOp p)
  with assms tryBody_dry_run(1) [of h rootWithSep p st] show ?thesis by auto
next
  case (MoveOp f t)
  with assms tryBody_dry_run(2) [of h rootWithSep f t st] show ?thesis by auto
next
  case (DeleteOp p)
  with assms tryBody_dry_run(3) [of h rootWithSep p st] show ?thesis by auto
next
  case (ReplaceText rop)
  with assms have "execReplace h False rootWithSep rop st = Some (r, st')"
    by (simp only: tryBody_other)
  from execReplace_result [OF this] show ?thesis by auto
next
  case (OtherOp tag)
  with assms show ?thesis by (simp add: tryBody_other)
qed

lemma processOp_dry_result:
  assumes "processOp h False rootWithSep operation st = Some st'"
  shows "st_disk st' = st_disk st \<and>
         (\<exists>cs. st_calls st' = st_calls st @ cs \<and> (\<forall>c \<in> set cs. \<not> isMutation c))"
  using assms
proof (cases rule: processOp_cases)
  case (1 st0)
  with tryBody_dry_result [OF 1(1)] show ?thesis by simp
next
  case (2 e st0)
  with tryBody_dry_result [OF 2(1)] show ?thesis by simp
qed


lemma tryBody_contributes:
  assumes "tryBody h commit rootWithSep operation st = Some (r, st0)"
  shows "st_errors st0 = st_errors st \<and>
         (\<exists>pv. st_preview st0 = st_preview st @ pv \<and>
            contributes commit operation
              (pv, case r of Normal \<Rightarrow> [] | Throws e \<Rightarrow> [catchMessage e]))"
proof (cases operation)
  case (MkdirOp p)
  show ?thesis
  proof (cases commit)
    case True
    with assms MkdirOp
    have "execMkdir h rootWithSep p (pushPreview (mkdirLine True p) st) = (r, st0)"
      by (simp add: tryBody_commit)
    from execMkdir_result [OF this] True MkdirOp show ?thesis
      by (cases r) (simp_all add: contributes_def)
  next
    case False
    with assms MkdirOp show ?thesis
      by (auto simp: tryBody_dry_run contributes_def)
  qed
next
  case (MoveOp f t)
  show ?thesis
  proof (cases commit)
    case True
    with assms MoveOp
    have "execMove h rootWithSep f t (pushPreview (moveLine True f t) st) = (r, st0)"
      by (simp add: tryBody_commit)
    from execMove_result [OF this] True MoveOp show ?thesis
      by (cases r) (simp_all add: contributes_def)
  next
    case False
    with assms MoveOp show ?thesis
      by (auto simp: tryBody_dry_run contributes_def)
  qed
next
  case (DeleteOp p)
  show ?thesis
  proof (cases commit)
    case True
    with assms DeleteOp
    have "execDelete h rootWithSep p (pushPreview (deleteLine True p) st) = (r, st0)"
      by (simp add: tryBody_commit)
    from execDelete_result [OF this] True DeleteOp show ?thesis
      by (cases r) (simp_all add: contributes_def)
  next
    case False
    with assms DeleteOp show ?thesis
      by (auto simp: tryBody_dry_run contributes_def)
  qed
next
  case (ReplaceText rop)
  with assms have "execReplace h commit rootWithSep rop st = Some (r, st0)"
    by (simp only: tryBody_other)
  from execReplace_result [OF this] ReplaceText show ?thesis
    by (cases r) (auto simp: contributes_def)
next
  case (OtherOp tag)
  with assms show ?thesis
    by (auto simp: tryBody_other contributes_def catchMessage_own)
qed

lemma processOp_contributes:
  assumes "processOp h commit rootWithSep operation st = Some st'"
  shows "\<exists>pv er. st_preview st' = st_preview st @ pv \<and> st_errors st' = st_errors st @ er \<and>
           contributes commit operation (pv, er)"
  using assms
proof (cases rule: processOp_cases)
  case (1 st0)
  from tryBody_contributes [OF 1(1)] 1(2) show ?thesis by auto
next
  case (2 e st0)
  from tryBody_contributes [OF 2(1)] 2(2) show ?thesis by auto
qed

lemma processOp_replace_unwritten:
  assumes "ensureWithinRoot (host_cwd h) rootWithSep (rt_path rop) = Inr absP"
    and "host_stat h (st_disk st) absP = Inr s"
    and "st_isFile s"
    and "st_size s \<le> 2 * 1024 * 1024"
    and "host_readFile h (st_disk st) absP = Inr raw"
    and "computeReplace (host_compile h) rop raw = Some (Inr (matchCount, nxt))"
    and "\<not> commit \<or> nxt = raw"
  shows "processOp h commit rootWithSep (ReplaceText rop) st =
     Some (pushPreview (replaceLine commit (rt_path rop) matchCount)
            (logCall (ReadFileCall absP) (logCall (StatCall absP) st)))"
proof -
  from assms(7)
  have "execReplace h commit rootWithSep rop st =
     Some (Normal, pushPreview (replaceLine commit (rt_path rop) matchCount)
            (logCall (ReadFileCall absP) (logCall (StatCall absP) st)))"
    by (simp only: execReplace_computed [OF assms(1-6)] Let_def) auto
  then show ?thesis by (intro processOp_Normal) (simp only: tryBody_other)
qed

lemma processOp_replace_written:
  assumes "ensureWithinRoot (host_cwd h) rootWithSep (rt_path rop) = Inr absP"
    and "host_stat h (st_disk st) absP = Inr s"
    and "st_isFile s"
    and "st_size s \<le> 2 * 1024 * 1024"
    and "host_readFile h (st_disk st) absP = Inr raw"
    and "computeReplace (host_compile h) rop raw = Some (Inr (matchCount, nxt))"
    and "nxt \<noteq> raw"
    and "host_writeFile h (st_disk st) absP nxt = (d, Normal)"
  shows "processOp h True rootWithSep (ReplaceText rop) st =
     Some (logCall (WriteFileCall absP nxt)
            ((pushPreview (replaceLine True (rt_path rop) matchCount)
               (logCall (ReadFileCall absP) (logCall (StatCall absP) st)))\<lparr>st_disk := d\<rparr>))"
proof -
  from assms(7,8)
  have "execReplace h True rootWithSep rop st =
     Some (Normal, logCall (WriteFileCall absP nxt)
            ((pushPreview (replaceLine True (rt_path rop) matchCount)
               (logCall (ReadFileCall absP) (logCall (StatCall absP) st)))\<lparr>st_disk := d\<rparr>))"
    by (simp only: execReplace_computed [OF assms(1-6)] Let_def) auto
  then show ?thesis by (intro processOp_Normal) (simp only: tryBody_other)
qed

lemma processOp_escape_commit:
  assumes "ensureWithinRoot (host_cwd h) rootWithSep rel = Inl e"
  shows "processOp h True rootWithSep (MkdirOp rel) st =
           Some (st\<lparr>st_preview := st_preview st @ [mkdirLine True rel],
                    st_errors := st_errors st @ [catchMessage e]\<rparr>)"
    and "processOp h True rootWithSep (DeleteOp rel) st =
           Some (st\<lparr>st_preview := st_preview st @ [deleteLine True rel],
                    st_errors := st_errors st @ [catchMessage e]\<rparr>)"
    and "processOp h True rootWithSep (MoveOp rel other) st =
           Some (st\<lparr>st_preview := st_preview st @ [moveLine True rel other],
                    st_errors := st_errors st @ [catchMessage e]\<rparr>)"
    and "ensureWithinRoot (host_cwd h) rootWithSep other = Inr a \<Longrightarrow>
         processOp h True rootWithSep (MoveOp other rel) st =
           Some (st\<lparr>st_preview := st_preview st @ [moveLine True other rel],
                    st_errors := st_errors st @ [catchMessage e]\<rparr>)"
    and "rt_path rop = rel \<Longrightarrow>
         processOp h commit rootWithSep (ReplaceText rop) st =
           Some (st\<lparr>st_errors := st_errors st @ [catchMessage e]\<rparr>)"
proof -
  show "processOp h True rootWithSep (MkdirOp rel) st =
           Some (st\<lparr>st_preview := st_preview st @ [mkdirLine True rel],
                    st_errors := st_errors st @ [catchMessage e]\<rparr>)"
    by (subst processOp_Throws [where e = e and st' = "pushPreview (mkdirLine True rel) st"])
       (simp_all add: tryBody_commit execMkdir_escape [OF assms] pushPreview_def)
  show "processOp h True rootWithSep (DeleteOp rel) st =
           Some (st\<lparr>st_preview := st_preview st @ [deleteLine True rel],
                    st_errors := st_errors st @ [catchMessage e]\<rparr>)"
    by (subst processOp_Throws [where e = e and st' = "pushPreview (deleteLine True rel) st"])
       (simp_all add: tryBody_commit execDelete_escape [OF assms] pushPreview_def)
  show "processOp h True rootWithSep (MoveOp rel other) st =
           Some (st\<lparr>st_preview := st_preview st @ [moveLine True rel other],
                    st_errors := st_errors st @ [catchMessage e]\<rparr>)"
    by (subst processOp_Throws [where e = e and st' = "pushPreview (moveLine True rel other) st"])
       (simp_all add: tryBody_commit execMove_escape_from [OF assms] pushPreview_def)
  show "processOp h True rootWithSep (MoveOp other rel) st =
           Some (st\<lparr>st_preview := st_preview st @ [moveLine True other rel],
                    st_errors := st_errors st @ [catchMessage e]\<rparr>)"
    if "ensureWithinRoot (host_cwd h) rootWithSep other = Inr a"
    by (subst processOp_Throws [where e = e and st' = "pushPreview (moveLine True other rel) st"])
       (simp_all add: tryBody_commit execMove_escape_to [OF that assms] pushPreview_def)
  show "processOp h commit rootWithSep (ReplaceText rop) st =
           Some (st\<lparr>st_errors := st_errors st @ [catchMessage e]\<rparr>)"
    if "rt_path rop = rel"
    using that assms
    by (subst processOp_Throws [where e = e and st' = st])
       (simp_all add: tryBody_other execReplace_escape)
qed

lemma processOp_dry_generic:
  "processOp h False rootWithSep (MkdirOp p) st =
     Some (st\<lparr>st_preview := st_preview st @ [mkdirLine False p]\<rparr>)"
  "processOp h False rootWithSep (MoveOp f t) st =
     Some (st\<lparr>st_preview := st_preview st @ [moveLine False f t]\<rparr>)"
  "processOp h False rootWithSep (DeleteOp p) st =
     Some (st\<lparr>st_preview := st_preview st @ [deleteLine False p]\<rparr>)"
  by (simp_all add: processOp_Normal [OF tryBody_dry_run(1)]
      processOp_Normal [OF tryBody_dry_run(2)] processOp_Normal [OF tryBody_dry_run(3)]
      pushPreview_def)

lemma processOp_unknown:
  "processOp h commit rootWithSep (OtherOp tag) st =
     Some (st\<lparr>st_errors := st_errors st @ [msgUnknownOp @ tag]\<rparr>)"
  by (subst processOp_Throws [where e = "UnknownOperation tag" and st' = st])
     (simp_all add: tryBody_other catchMessage_own)

subsection \<open>The whole loop\<close>



lemma forEachOp_dry_result:
  "forEachOp h False rootWithSep ops st = Some st' \<Longrightarrow>
   st_disk st' = st_disk st \<and>
   (\<exists>cs. st_calls st' = st_calls st @ cs \<and> (\<forall>c \<in> set cs. \<not> isMutation c))"
proof (induction ops arbitrary: st)
  case Nil
  then show ?case by simp
next
  case (Cons operation ops)
  from Cons.prems obtain st1 where
    s1: "processOp h False rootWithSep operation st = Some st1"
    and s2: "forEachOp h False rootWithSep ops st1 = Some st'"
    by (auto split: option.splits)
  from processOp_dry_result [OF s1] obtain cs1 where
    c1: "st_disk st1 = st_disk st" "st_calls st1 = st_calls st @ cs1"
        "\<forall>c \<in> set cs1. \<not> isMutation c" by blast
  from Cons.IH [OF s2] obtain cs2 where
    c2: "st_disk st' = st_disk st1" "st_calls st' = st_calls st1 @ cs2"
        "\<forall>c \<in> set cs2. \<not> isMutation c" by blast
  from c1 c2 have "st_calls st' = st_calls st @ (cs1 @ cs2)"
    "\<forall>c \<in> set (cs1 @ cs2). \<not> isMutation c" by auto
  with c1(1) c2(1) show ?case by metis
qed

lemma forEachOp_contributes:
  "forEachOp h commit rootWithSep ops st = Some st' \<Longrightarrow>
   \<exists>cs. list_all2 (contributes commit) ops cs \<and>
        st_preview st' = st_preview st @ concat (map fst cs) \<and>
        st_errors st' = st_errors st @ concat (map snd cs)"
proof (induction ops arbitrary: st)
  case Nil
  then show ?case by simp
next
  case (Cons operation ops)
  from Cons.prems obtain st1 where
    s1: "processOp h commit rootWithSep operation st = Some st1"
    and s2: "forEachOp h commit rootWithSep ops st1 = Some st'"
    by (auto split: option.splits)
  from processOp_contributes [OF s1] obtain pv er where
    c1: "st_preview st1 = st_preview st @ pv" "st_errors st1 = st_errors st @ er"
        "contributes commit operation (pv, er)" by blast
  from Cons.IH [OF s2] obtain cs where
    c2: "list_all2 (contributes commit) ops cs"
        "st_preview st' = st_preview st1 @ concat (map fst cs)"
        "st_errors st' = st_errors st1 @ concat (map snd cs)" by blast
  have "list_all2 (contributes commit) (operation # ops) ((pv, er) # cs)"
    using c1(3) c2(1) by simp
  moreover have "st_preview st' = st_preview st @ concat (map fst ((pv, er) # cs))"
    using c1(1) c2(2) by simp
  moreover have "st_errors st' = st_errors st @ concat (map snd ((pv, er) # cs))"
    using c1(2) c2(3) by simp
  ultimately show ?case by blast
qed

lemma applyPlan_Some:
  assumes "applyPlan h disk input = Some (res, disk', calls)"
  obtains st where
    "forEachOp h (in_commit input) (normalizeRoot (host_cwd h) (in_root input))
       (in_operations input) (initialState disk) = Some st"
    "res = \<lparr>res_ok = (length (st_errors st) = 0),
            res_root = normalizeRoot (host_cwd h) (in_root input),
            res_preview = st_preview st, res_errors = st_errors st\<rparr>"
    "disk' = st_disk st" "calls = st_calls st"
  using assms unfolding applyPlan_def Let_def by (auto split: option.splits)

subsection \<open>Paths the sandbox refuses\<close>

lemma segments_nonempty: "segments p \<noteq> []"
  by (induction p) (auto split: list.splits)

lemma segments_chars: "s \<in> set (segments p) \<Longrightarrow> set s \<subseteq> set p"
proof (induction p arbitrary: s)
  case Nil
  then show ?case by simp
next
  case (Cons c cs)
  show ?case
  proof (cases "c = CHR ''/''")
    case True
    with Cons show ?thesis by auto
  next
    case False
    obtain x xs where seg: "segments cs = x # xs"
      using segments_nonempty [of cs] by (cases "segments cs") auto
    with False Cons.prems have "s = c # x \<or> s \<in> set xs" by auto
    then show ?thesis
    proof
      assume "s = c # x"
      with Cons.IH [of x] seg show ?thesis by auto
    next
      assume "s \<in> set xs"
      with Cons.IH [of s] seg show ?thesis by auto
    qed
  qed
qed

lemma whiteAtStart_bytes: "set (take (whiteAtStart s) s) \<subseteq> set (concat whiteSpace)"
proof (cases "find (\<lambda>w. prefix w s) whiteSpace")
  case None
  then show ?thesis by (simp add: whiteAtStart_def)
next
  case (Some w)
  then have w: "w \<in> set whiteSpace" "prefix w s"
    by (auto simp: find_Some_iff)
  from w(2) have "take (length w) s = w" by (auto simp: prefix_def)
  with Some w(1) show ?thesis by (auto simp: whiteAtStart_def)
qed

lemma whiteAtEnd_bytes:
  "set (drop (length s - whiteAtEnd s) s) \<subseteq> set (concat whiteSpace)"
proof (cases "find (\<lambda>w. suffix w s) whiteSpace")
  case None
  then show ?thesis by (simp add: whiteAtEnd_def)
next
  case (Some w)
  then have w: "w \<in> set whiteSpace" "suffix w s"
    by (auto simp: find_Some_iff)
  from w(2) have "drop (length s - length w) s = w" by (auto simp: suffix_def)
  with Some w(1) show ?thesis by (auto simp: whiteAtEnd_def)
qed

lemma trimStart_bytes: "set s \<subseteq> set (concat whiteSpace) \<union> set (trimStart s)"
proof (induction s rule: trimStart.induct)
  case (1 s)
  show ?case
  proof (cases "whiteAtStart s = 0")
    case True
    then show ?thesis by (simp add: trimStart.simps [of s])
  next
    case False
    have "set s = set (take (whiteAtStart s) s) \<union> set (drop (whiteAtStart s) s)"
      by (metis append_take_drop_id set_append)
    with whiteAtStart_bytes [of s] "1.IH" [OF False] False
    show ?thesis by (auto simp: trimStart.simps [of s])
  qed
qed

lemma trimEnd_bytes: "set s \<subseteq> set (concat whiteSpace) \<union> set (trimEnd s)"
proof (induction s rule: trimEnd.induct)
  case (1 s)
  show ?case
  proof (cases "whiteAtEnd s = 0")
    case True
    then show ?thesis by (simp add: trimEnd.simps [of s])
  next
    case False
    have "set s = set (take (length s - whiteAtEnd s) s)
                    \<union> set (drop (length s - whiteAtEnd s) s)"
      by (metis append_take_drop_id set_append)
    with whiteAtEnd_bytes [of s] "1.IH" [OF False] False
    show ?thesis by (auto simp: trimEnd.simps [of s])
  qed
qed

lemma trim_empty: "trim s = [] \<Longrightarrow> set s \<subseteq> set (concat whiteSpace)"
  using trimStart_bytes [of s] trimEnd_bytes [of "trimStart s"]
  by (auto simp: trim_def)

lemma parent_segment_not_blank:
  assumes "''..'' \<in> set (segments relPath)"
  shows "trim relPath \<noteq> []"
proof
  assume "trim relPath = []"
  from trim_empty [OF this] have w: "set relPath \<subseteq> set (concat whiteSpace)" .
  from segments_chars [OF assms] have "CHR ''.'' \<in> set relPath" by auto
  with w have "CHR ''.'' \<in> set (concat whiteSpace)" by blast
  then show False by (simp add: whiteSpace_def)
qed

lemma resolvesOutside_rejected:
  "resolvesOutside cwd rootWithSep relPath \<Longrightarrow>
   ensureWithinRoot cwd rootWithSep relPath = Inl (PathEscape relPath)"
  using parent_segment_not_blank [of relPath]
  by (simp add: resolvesOutside_def ensureWithinRoot_def Let_def)

section \<open>Runs on the host in memory\<close>

text \<open>Evaluations that the examples below share.\<close>

lemma example_root: "normalizeRoot ''/home/user'' ''/proj'' = ''/proj/''"
  by code_simp

lemma example_escape: "resolvesOutside (host_cwd memHost) ''/proj/'' ''../x''"
  by simp code_simp

lemma example_escape_rejected:
  "ensureWithinRoot (host_cwd memHost) ''/proj/'' ''../x'' = Inl (PathEscape ''../x'')"
  by (rule resolvesOutside_rejected [OF example_escape])

lemma example_within:
  "ensureWithinRoot (host_cwd memHost) ''/proj/'' ''a.txt'' = Inr ''/proj/a.txt''"
  by simp code_simp

lemma escape_dry_run:
  "applyPlan memHost exampleDisk
     \<lparr>in_root = ''/proj'', in_operations = [MkdirOp ''../x''], in_commit = False\<rparr>
   = Some (\<lparr>res_ok = True, res_root = ''/proj/'',
            res_preview = [mkdirLine False ''../x''], res_errors = []\<rparr>,
           exampleDisk, [])"
  by (simp add: applyPlan_def example_root processOp_dry_generic)

lemma escape_commit_run:
  "applyPlan memHost exampleDisk
     \<lparr>in_root = ''/proj'', in_operations = [MkdirOp ''../x''], in_commit = True\<rparr>
   = Some (\<lparr>res_ok = False, res_root = ''/proj/'',
            res_preview = [mkdirLine True ''../x''],
            res_errors = [msgEscape @ ''../x'']\<rparr>,
           exampleDisk, [])"
  by (simp add: applyPlan_def example_root
      processOp_escape_commit(1) [OF example_escape_rejected] catchMessage_own message_own)

lemma mixed_commit_run:
  "applyPlan memHost exampleDisk
     \<lparr>in_root = ''/proj'',
      in_operations = [OtherOp ''zap'', MkdirOp ''../x'', OtherOp ''zip''],
      in_commit = True\<rparr>
   = Some (\<lparr>res_ok = False, res_root = ''/proj/'',
            res_preview = [mkdirLine True ''../x''],
            res_errors = [msgUnknownOp @ ''zap'', msgEscape @ ''../x'', msgUnknownOp @ ''zip'']\<rparr>,
           exampleDisk, [])"
  by (simp add: applyPlan_def example_root processOp_unknown
      processOp_escape_commit(1) [OF example_escape_rejected] catchMessage_own message_own)

text \<open>A dry run of a plan with a directory creation and a literal replacement.\<close>

lemma dry_run_example:
  "applyPlan memHost exampleDisk
     \<lparr>in_root = ''/proj'',
      in_operations = [MkdirOp ''out'',
        ReplaceText \<lparr>rt_path = ''a.txt'', rt_mode = Literal, rt_search = ''a'',
                     rt_replace = ''b'', rt_flags = None\<rparr>],
      in_commit = False\<rparr>
   = Some (\<lparr>res_ok = True, res_root = ''/proj/'',
            res_preview = [mkdirLine False ''out'', replaceLine False ''a.txt'' 3],
            res_errors = []\<rparr>,
           exampleDisk,
           [StatCall ''/proj/a.txt'', ReadFileCall ''/proj/a.txt''])"
proof -
  let ?rop = "\<lparr>rt_path = ''a.txt'', rt_mode = Literal, rt_search = ''a'',
                     rt_replace = ''b'', rt_flags = None\<rparr>"
  let ?s1 = "pushPreview (mkdirLine False ''out'') (initialState exampleDisk)"
  have root: "normalizeRoot ''/home/user'' ''/proj'' = ''/proj/''" by code_simp
  have p1: "processOp memHost False ''/proj/'' (MkdirOp ''out'') (initialState exampleDisk)
      = Some ?s1"
    by (rule processOp_Normal) (rule tryBody_dry_run)
  have ens: "ensureWithinRoot (host_cwd memHost) ''/proj/'' (rt_path ?rop) = Inr ''/proj/a.txt''"
    by simp code_simp
  have stat: "host_stat memHost (st_disk ?s1) ''/proj/a.txt''
      = Inr \<lparr>st_isFile = True, st_size = 5, st_mtimeMs = 0\<rparr>"
    by simp code_simp
  have rd: "host_readFile memHost (st_disk ?s1) ''/proj/a.txt'' = Inr ''aXaXa''"
    by simp code_simp
  have cnt: "countMatchesLiteral ''aXaXa'' ''a'' = 3" by code_simp
  have rep: "replaceLiteral ''aXaXa'' ''a'' ''b'' = ''bXbXb''" by code_simp
  have comp: "computeReplace (host_compile memHost) ?rop ''aXaXa'' = Some (Inr (3, ''bXbXb''))"
    by (simp add: computeReplace_literal cnt rep)
  have p2: "processOp memHost False ''/proj/'' (ReplaceText ?rop) ?s1
      = Some (pushPreview (replaceLine False ''a.txt'' 3)
            (logCall (ReadFileCall ''/proj/a.txt'') (logCall (StatCall ''/proj/a.txt'') ?s1)))"
    using processOp_replace_unwritten [OF ens stat _ _ rd comp, of False] by simp
  have "forEachOp memHost False ''/proj/'' [MkdirOp ''out'', ReplaceText ?rop]
      (initialState exampleDisk)
      = Some (pushPreview (replaceLine False ''a.txt'' 3)
            (logCall (ReadFileCall ''/proj/a.txt'') (logCall (StatCall ''/proj/a.txt'') ?s1)))"
    by (simp add: p1 p2)
  then show ?thesis
    by (simp add: applyPlan_def root)
qed

lemma example_stat_a:
  "memStat exampleDisk ''/proj/a.txt'' = Inr \<lparr>st_isFile = True, st_size = 5, st_mtimeMs = 0\<rparr>"
  "memReadFile exampleDisk ''/proj/a.txt'' = Inr ''aXaXa''"
  "memWriteFile exampleDisk ''/proj/a.txt'' ''bXbXb'' =
     ([(''/proj/a.txt'', DFile 5 ''bXbXb''), (''/proj'', DDir),
       (''/proj/abc.txt'', DFile 3 ''abc''), (''/proj/aaa.txt'', DFile 3 ''aaa'')], Normal)"
  by code_simp+

lemma example_within_abc:
  "ensureWithinRoot (host_cwd memHost) ''/proj/'' ''abc.txt'' = Inr ''/proj/abc.txt''"
  by simp code_simp

lemma example_stat_abc:
  "memStat exampleDisk ''/proj/abc.txt'' = Inr \<lparr>st_isFile = True, st_size = 3, st_mtimeMs = 0\<rparr>"
  "memReadFile exampleDisk ''/proj/abc.txt'' = Inr ''abc''"
  "memWriteFile exampleDisk ''/proj/abc.txt'' ''aXbXc'' =
     ([(''/proj/abc.txt'', DFile 5 ''aXbXc''), (''/proj'', DDir),
       (''/proj/a.txt'', DFile 5 ''aXaXa''), (''/proj/aaa.txt'', DFile 3 ''aaa'')], Normal)"
  by code_simp+

section \<open>The sandbox and the file system\<close>

text \<open>
  Claim C1, as the specification states it, fails for dry runs: with \<^verbatim>\<open>commit = false\<close>
  the paths of \<^verbatim>\<open>mkdir\<close>, \<^verbatim>\<open>move\<close> and \<^verbatim>\<open>delete\<close> never reach the sandbox, so a path that
  resolves outside the root is not reported.
\<close>

theorem C1_dry_run_counterexample:
  "resolvesOutside (host_cwd memHost) ''/proj/'' ''../x'' \<and>
   applyPlan memHost exampleDisk
     \<lparr>in_root = ''/proj'', in_operations = [MkdirOp ''../x''], in_commit = False\<rparr>
   = Some (\<lparr>res_ok = True, res_root = ''/proj/'',
            res_preview = [mkdirLine False ''../x''], res_errors = []\<rparr>,
           exampleDisk, [])"
  using example_escape escape_dry_run by simp

text \<open>
  Claim C1, amended. Let a relative path with a \<^verbatim>\<open>..\<close> segment resolve outside the root.
  In a committing run, a \<^verbatim>\<open>mkdir\<close> or \<^verbatim>\<open>delete\<close> of it, a \<^verbatim>\<open>move\<close> from it, and a
  \<^verbatim>\<open>move\<close> to it from a path the sandbox accepts, leave their preview line and the
  \<^verbatim>\<open>PathEscape\<close> error of that path; a \<^verbatim>\<open>replaceText\<close> of it leaves that error and no
  line, in a dry run as well. In each case the disk and the log of calls are as before:
  the sandbox has refused the path before any file system call. In a dry run \<^verbatim>\<open>mkdir\<close>,
  \<^verbatim>\<open>move\<close> and \<^verbatim>\<open>delete\<close> leave their preview line only, no error, and make no call.
\<close>

theorem C1_escape_rejected_on_execution:
  assumes "resolvesOutside (host_cwd h) rootWithSep rel"
  shows
   "processOp h True rootWithSep (MkdirOp rel) st =
      Some (st\<lparr>st_preview := st_preview st @ [mkdirLine True rel],
               st_errors := st_errors st @ [message (PathEscape rel)]\<rparr>) \<and>
    processOp h True rootWithSep (DeleteOp rel) st =
      Some (st\<lparr>st_preview := st_preview st @ [deleteLine True rel],
               st_errors := st_errors st @ [message (PathEscape rel)]\<rparr>) \<and>
    processOp h True rootWithSep (MoveOp rel other) st =
      Some (st\<lparr>st_preview := st_preview st @ [moveLine True rel other],
               st_errors := st_errors st @ [message (PathEscape rel)]\<rparr>) \<and>
    (ensureWithinRoot (host_cwd h) rootWithSep other = Inr a \<longrightarrow>
       processOp h True rootWithSep (MoveOp other rel) st =
         Some (st\<lparr>st_preview := st_preview st @ [moveLine True other rel],
                  st_errors := st_errors st @ [message (PathEscape rel)]\<rparr>)) \<and>
    (rt_path rop = rel \<longrightarrow>
       processOp h commit rootWithSep (ReplaceText rop) st =
         Some (st\<lparr>st_errors := st_errors st @ [message (PathEscape rel)]\<rparr>)) \<and>
    processOp h False rootWithSep (MkdirOp rel) st =
      Some (st\<lparr>st_preview := st_preview st @ [mkdirLine False rel]\<rparr>) \<and>
    processOp h False rootWithSep (DeleteOp rel) st =
      Some (st\<lparr>st_preview := st_preview st @ [deleteLine False rel]\<rparr>) \<and>
    processOp h False rootWithSep (MoveOp rel other) st =
      Some (st\<lparr>st_preview := st_preview st @ [moveLine False rel other]\<rparr>) \<and>
    processOp h False rootWithSep (MoveOp other rel) st =
      Some (st\<lparr>st_preview := st_preview st @ [moveLine False other rel]\<rparr>)"
proof -
  from resolvesOutside_rejected [OF assms]
  have ens: "ensureWithinRoot (host_cwd h) rootWithSep rel = Inl (PathEscape rel)" .
  have msg: "catchMessage (PathEscape rel) = message (PathEscape rel)"
    by (simp add: catchMessage_own message_own)
  note esc = processOp_escape_commit [OF ens, unfolded msg]
  show ?thesis
    by (intro conjI impI esc processOp_dry_generic) assumption+
qed

theorem C1_escape_rejected_on_execution_witness:
  "resolvesOutside (host_cwd memHost) ''/proj/'' ''../x'' \<and>
   ensureWithinRoot (host_cwd memHost) ''/proj/'' ''a.txt'' = Inr ''/proj/a.txt'' \<and>
   processOp memHost True ''/proj/'' (MkdirOp ''../x'') (initialState exampleDisk) =
     Some \<lparr>st_disk = exampleDisk, st_calls = [], st_preview = [mkdirLine True ''../x''],
           st_errors = [msgEscape @ ''../x'']\<rparr> \<and>
   processOp memHost True ''/proj/'' (MoveOp ''a.txt'' ''../x'') (initialState exampleDisk) =
     Some \<lparr>st_disk = exampleDisk, st_calls = [],
           st_preview = [moveLine True ''a.txt'' ''../x''],
           st_errors = [msgEscape @ ''../x'']\<rparr> \<and>
   processOp memHost False ''/proj/''
       (ReplaceText \<lparr>rt_path = ''../x'', rt_mode = Literal, rt_search = ''a'',
                      rt_replace = ''b'', rt_flags = None\<rparr>)
       (initialState exampleDisk) =
     Some \<lparr>st_disk = exampleDisk, st_calls = [], st_preview = [],
           st_errors = [msgEscape @ ''../x'']\<rparr> \<and>
   processOp memHost False ''/proj/'' (DeleteOp ''../x'') (initialState exampleDisk) =
     Some \<lparr>st_disk = exampleDisk, st_calls = [], st_preview = [deleteLine False ''../x''],
           st_errors = []\<rparr>"
proof -
  note inst = C1_escape_rejected_on_execution [OF example_escape,
      where other = "''a.txt''" and st = "initialState exampleDisk" and a = "''/proj/a.txt''"
        and rop = "\<lparr>rt_path = ''../x'', rt_mode = Literal, rt_search = ''a'',
           rt_replace = ''b'', rt_flags = None\<rparr>" and commit = False]
  from inst example_within have
    "processOp memHost True ''/proj/'' (MkdirOp ''../x'') (initialState exampleDisk) =
       Some ((initialState exampleDisk)\<lparr>st_preview := st_preview (initialState exampleDisk)
                @ [mkdirLine True ''../x''],
              st_errors := st_errors (initialState exampleDisk)
                @ [message (PathEscape ''../x'')]\<rparr>)"
    "processOp memHost True ''/proj/'' (MoveOp ''a.txt'' ''../x'') (initialState exampleDisk) =
       Some ((initialState exampleDisk)\<lparr>st_preview := st_preview (initialState exampleDisk)
                @ [moveLine True ''a.txt'' ''../x''],
              st_errors := st_errors (initialState exampleDisk)
                @ [message (PathEscape ''../x'')]\<rparr>)"
    "processOp memHost False ''/proj/''
       (ReplaceText \<lparr>rt_path = ''../x'', rt_mode = Literal, rt_search = ''a'',
                      rt_replace = ''b'', rt_flags = None\<rparr>)
       (initialState exampleDisk) =
       Some ((initialState exampleDisk)\<lparr>st_errors := st_errors (initialState exampleDisk)
                @ [message (PathEscape ''../x'')]\<rparr>)"
    "processOp memHost False ''/proj/'' (DeleteOp ''../x'') (initialState exampleDisk) =
       Some ((initialState exampleDisk)\<lparr>st_preview := st_preview (initialState exampleDisk)
                @ [deleteLine False ''../x'']\<rparr>)"
    by simp_all
  with example_escape example_within show ?thesis
    by (simp add: initialState_def message_own)
qed

section \<open>Preview lines and errors\<close>

text \<open>
  Claim C2, as the specification states it, fails: an operation may leave both a preview
  line and an error. A committing run of the single operation \<^verbatim>\<open>mkdir ../x\<close> pushes the
  preview line first and then raises in the sandbox.
\<close>

theorem C2_line_and_error_counterexample:
  "applyPlan memHost exampleDisk
     \<lparr>in_root = ''/proj'', in_operations = [MkdirOp ''../x''], in_commit = True\<rparr>
   = Some (\<lparr>res_ok = False, res_root = ''/proj/'',
            res_preview = [mkdirLine True ''../x''],
            res_errors = [msgEscape @ ''../x'']\<rparr>,
           exampleDisk, [])"
  by (rule escape_commit_run)

text \<open>
  Claim C2, amended. The preview and the errors of a result are the concatenation, in
  the order of the operations, of what each operation contributes (see \<^const>\<open>contributes\<close>):
  every \<^verbatim>\<open>mkdir\<close>, \<^verbatim>\<open>move\<close> and \<^verbatim>\<open>delete\<close> contributes exactly its preview line, and in a
  committing run possibly one error as well; a \<^verbatim>\<open>replaceText\<close> contributes either one
  error and no line, or its line, with possibly an error of the write in a committing
  run; an unknown tag contributes one error and no line.
\<close>

theorem C2_preview_in_order:
  assumes "applyPlan h disk input = Some (res, disk', calls)"
  shows "\<exists>cs. list_all2 (contributes (in_commit input)) (in_operations input) cs \<and>
           res_preview res = concat (map fst cs) \<and>
           res_errors res = concat (map snd cs)"
proof -
  from assms obtain st where
    st: "forEachOp h (in_commit input) (normalizeRoot (host_cwd h) (in_root input))
           (in_operations input) (initialState disk) = Some st"
      "res = \<lparr>res_ok = (length (st_errors st) = 0),
            res_root = normalizeRoot (host_cwd h) (in_root input),
            res_preview = st_preview st, res_errors = st_errors st\<rparr>"
    by (rule applyPlan_Some)
  from forEachOp_contributes [OF st(1)] st(2) show ?thesis by simp
qed

theorem C2_preview_in_order_witness:
  "applyPlan memHost exampleDisk
     \<lparr>in_root = ''/proj'',
      in_operations = [OtherOp ''zap'', MkdirOp ''../x'', OtherOp ''zip''],
      in_commit = True\<rparr>
   = Some (\<lparr>res_ok = False, res_root = ''/proj/'',
            res_preview = [mkdirLine True ''../x''],
            res_errors = [msgUnknownOp @ ''zap'', msgEscape @ ''../x'', msgUnknownOp @ ''zip'']\<rparr>,
           exampleDisk, []) \<and>
   (\<exists>cs. list_all2 (contributes True) [OtherOp ''zap'', MkdirOp ''../x'', OtherOp ''zip''] cs \<and>
      [mkdirLine True ''../x''] = concat (map fst cs) \<and>
      [msgUnknownOp @ ''zap'', msgEscape @ ''../x'', msgUnknownOp @ ''zip'']
        = concat (map snd cs))"
  using C2_preview_in_order [OF mixed_commit_run] mixed_commit_run by simp

section \<open>Failures stay inside their operation\<close>



section \<open>Dry runs\<close>

text \<open>
  Claim C4. A run of \<^verbatim>\<open>applyPlan\<close> with \<^verbatim>\<open>commit = false\<close> that returns has made no
  write, mkdir, rename or rm call (its calls are \<^verbatim>\<open>stat\<close> and \<^verbatim>\<open>readFile\<close> only) and
  leaves the disk as it found it; so running it again at once, on the disk it left,
  returns the same preview and the same errors.
\<close>

theorem C4_dry_run_is_pure:
  assumes "in_commit input = False"
    and "applyPlan h disk input = Some (res, disk', calls)"
  shows "disk' = disk \<and> (\<forall>c \<in> set calls. \<not> isMutation c) \<and>
         applyPlan h disk' input = Some (res, disk', calls)"
proof -
  from assms(2) obtain st where
    st: "forEachOp h (in_commit input) (normalizeRoot (host_cwd h) (in_root input))
           (in_operations input) (initialState disk) = Some st"
      "disk' = st_disk st" "calls = st_calls st"
    by (rule applyPlan_Some)
  from st(1) assms(1)
  have "forEachOp h False (normalizeRoot (host_cwd h) (in_root input))
           (in_operations input) (initialState disk) = Some st" by simp
  from forEachOp_dry_result [OF this] st(2,3)
  have "disk' = disk" "\<forall>c \<in> set calls. \<not> isMutation c"
    by (auto simp: initialState_def)
  with assms(2) show ?thesis by simp
qed

theorem C4_dry_run_is_pure_witness:
  "in_commit \<lparr>in_root = ''/proj'',
      in_operations = [MkdirOp ''out'',
        ReplaceText \<lparr>rt_path = ''a.txt'', rt_mode = Literal, rt_search = ''a'',
                     rt_replace = ''b'', rt_flags = None\<rparr>],
      in_commit = False\<rparr> = False \<and>
   applyPlan memHost exampleDisk
     \<lparr>in_root = ''/proj'',
      in_operations = [MkdirOp ''out'',
        ReplaceText \<lparr>rt_path = ''a.txt'', rt_mode = Literal, rt_search = ''a'',
                     rt_replace = ''b'', rt_flags = None\<rparr>],
      in_commit = False\<rparr>
   = Some (\<lparr>res_ok = True, res_root = ''/proj/'',
            res_preview = [mkdirLine False ''out'', replaceLine False ''a.txt'' 3],
            res_errors = []\<rparr>,
           exampleDisk,
           [StatCall ''/proj/a.txt'', ReadFileCall ''/proj/a.txt'']) \<and>
   \<not> isMutation (StatCall ''/proj/a.txt'') \<and> \<not> isMutation (ReadFileCall ''/proj/a.txt'')"
  using C4_dry_run_is_pure [OF _ dry_run_example] dry_run_example by simp

section \<open>The root of the result\<close>

lemma resolveArgs_absolute:
  "p \<noteq> [] \<Longrightarrow> hd p = CHR ''/'' \<Longrightarrow> snd (resolveArgs (ps @ [p]) acc)"
  by (induction ps arbitrary: acc) simp_all

lemma resolve_absolute:
  assumes "startsWith cwd sep"
  shows "startsWith (resolve cwd args) sep"
proof -
  from assms obtain r where cwd: "cwd = CHR ''/'' # r"
    by (auto simp: startsWith_def sep_def prefix_def)
  then have "snd (resolveArgs (rev args @ [cwd]) [])"
    by (intro resolveArgs_absolute) simp_all
  then show ?thesis
    by (auto simp: resolve_def startsWith_def sep_def Let_def split: prod.splits)
qed

lemma normalizeRoot_endsWith: "endsWith (normalizeRoot cwd root) sep"
  by (simp add: normalizeRoot_def Let_def endsWith_def suffix_def)

lemma normalizeRoot_absolute:
  "startsWith cwd sep \<Longrightarrow> startsWith (normalizeRoot cwd root) sep"
  using resolve_absolute [of cwd "[root]"]
  by (auto simp: normalizeRoot_def Let_def startsWith_def)

text \<open>
  Claim C10. The \<^verbatim>\<open>root\<close> field of the result of \<^verbatim>\<open>applyPlan\<close> is the normalized root:
  the root of the caller resolved to an absolute path, with a separator appended unless
  the resolved path already ends with one. It ends with the separator, and it is absolute
  when the working directory is.
\<close>

theorem C10_result_root_is_normalized:
  assumes "applyPlan h disk input = Some (res, disk', calls)"
  shows "res_root res = normalizeRoot (host_cwd h) (in_root input) \<and>
         res_root res =
           (if endsWith (resolve (host_cwd h) [in_root input]) sep
            then resolve (host_cwd h) [in_root input]
            else resolve (host_cwd h) [in_root input] @ sep) \<and>
         endsWith (res_root res) sep \<and>
         (startsWith (host_cwd h) sep \<longrightarrow> startsWith (res_root res) sep)"
proof -
  from assms have r: "res_root res = normalizeRoot (host_cwd h) (in_root input)"
    by (rule applyPlan_Some) simp
  then show ?thesis
    using normalizeRoot_endsWith [of "host_cwd h" "in_root input"]
      normalizeRoot_absolute [of "host_cwd h" "in_root input"]
    by (simp add: normalizeRoot_def Let_def)
qed

theorem C10_result_root_is_normalized_witness:
  "applyPlan memHost exampleDisk
     \<lparr>in_root = ''/proj'', in_operations = [MkdirOp ''../x''], in_commit = True\<rparr>
   = Some (\<lparr>res_ok = False, res_root = ''/proj/'',
            res_preview = [mkdirLine True ''../x''],
            res_errors = [msgEscape @ ''../x'']\<rparr>,
           exampleDisk, []) \<and>
   normalizeRoot (host_cwd memHost) ''/proj'' = ''/proj/'' \<and>
   resolve (host_cwd memHost) [''/proj''] = ''/proj'' \<and>
   endsWith ''/proj/'' sep \<and> startsWith (host_cwd memHost) sep \<and> startsWith ''/proj/'' sep"
proof -
  note c = C10_result_root_is_normalized [OF escape_commit_run]
  have n: "normalizeRoot (host_cwd memHost) ''/proj'' = ''/proj/''"
    by (simp add: example_root)
  from c have "endsWith (res_root \<lparr>res_ok = False, res_root = ''/proj/'',
            res_preview = [mkdirLine True ''../x''],
            res_errors = [msgEscape @ ''../x'']\<rparr>) sep" by blast
  then have e: "endsWith ''/proj/'' sep" by simp
  have r: "resolve (host_cwd memHost) [''/proj''] = ''/proj''" by simp code_simp
  have s: "startsWith (host_cwd memHost) sep" by simp code_simp
  from c s have "startsWith (res_root \<lparr>res_ok = False, res_root = ''/proj/'',
            res_preview = [mkdirLine True ''../x''],
            res_errors = [msgEscape @ ''../x'']\<rparr>) sep" by blast
  then have t: "startsWith ''/proj/'' sep" by simp
  show ?thesis by (intro conjI escape_commit_run n r e s t)
qed

section \<open>The size guard\<close>

text \<open>
  Claim C6. When the path of a \<^verbatim>\<open>replaceText\<close> operation passes the sandbox and \<^verbatim>\<open>stat\<close>
  reports a regular file of more than 2 MiB, the operation raises the error
  \<^verbatim>\<open>FileTooLarge\<close>: the turn of the loop leaves one more entry in \<^verbatim>\<open>errors\<close>, no preview
  line, the disk as it was, and \<^verbatim>\<open>stat\<close> as its only call, so the file is neither read
  nor written.
\<close>

theorem C6_file_too_large:
  assumes "ensureWithinRoot (host_cwd h) rootWithSep (rt_path rop) = Inr absP"
    and "host_stat h (st_disk st) absP = Inr s"
    and "st_isFile s"
    and "2 * 1024 * 1024 < st_size s"
  shows "processOp h commit rootWithSep (ReplaceText rop) st =
           Some (st\<lparr>st_calls := st_calls st @ [StatCall absP],
                    st_errors := st_errors st @ [message (FileTooLarge (rt_path rop))]\<rparr>)"
proof -
  have "tryBody h commit rootWithSep (ReplaceText rop) st =
          Some (Throws (FileTooLarge (rt_path rop)), logCall (StatCall absP) st)"
    by (simp only: tryBody_other execReplace_too_large [OF assms])
  from processOp_Throws [OF this] show ?thesis
    by (simp add: catchMessage_own message_own logCall_def)
qed

theorem C6_file_too_large_witness:
  "ensureWithinRoot (host_cwd memHost) ''/proj/'' ''big.bin'' = Inr ''/proj/big.bin'' \<and>
   host_stat memHost largeFileDisk ''/proj/big.bin''
     = Inr \<lparr>st_isFile = True, st_size = 3000000, st_mtimeMs = 0\<rparr> \<and>
   processOp memHost True ''/proj/''
      (ReplaceText \<lparr>rt_path = ''big.bin'', rt_mode = Literal, rt_search = ''a'',
                     rt_replace = ''b'', rt_flags = None\<rparr>)
      (initialState largeFileDisk)
    = Some \<lparr>st_disk = largeFileDisk, st_calls = [StatCall ''/proj/big.bin''],
            st_preview = [], st_errors = [msgTooLarge @ ''big.bin'']\<rparr>"
proof -
  let ?rop = "\<lparr>rt_path = ''big.bin'', rt_mode = Literal, rt_search = ''a'',
                     rt_replace = ''b'', rt_flags = None\<rparr>"
  have ens: "ensureWithinRoot (host_cwd memHost) ''/proj/'' (rt_path ?rop) = Inr ''/proj/big.bin''"
    by simp code_simp
  have stat: "host_stat memHost (st_disk (initialState largeFileDisk)) ''/proj/big.bin''
     = Inr \<lparr>st_isFile = True, st_size = 3000000, st_mtimeMs = 0\<rparr>"
    by (simp add: memStat_def largeFileDisk_def)
  from C6_file_too_large [OF ens stat, of True] ens stat
  show ?thesis by (simp add: initialState_def message_own)
qed

section \<open>Literal replacement\<close>

lemma firstOcc_None_scanCount: "s \<noteq> [] \<Longrightarrow> firstOcc s t = None \<Longrightarrow> scanCount s t = 0"
  by (induction t) (auto split: if_splits)

lemma firstOcc_Some_scanCount:
  "s \<noteq> [] \<Longrightarrow> firstOcc s t = Some n \<Longrightarrow> scanCount s t = Suc (scanCount s (drop (n + length s) t))"
proof (induction t arbitrary: n)
  case Nil then show ?case by simp
next
  case (Cons c cs)
  show ?case
  proof (cases "prefix s (c # cs)")
    case True
    with Cons.prems show ?thesis by simp
  next
    case False
    with Cons.prems obtain k where k: "firstOcc s cs = Some k" "n = Suc k" by auto
    from Cons.IH [OF Cons.prems(1) k(1)] k(2) False show ?thesis by simp
  qed
qed

lemma countLoop_scan:
  "search \<noteq> [] \<Longrightarrow> idx \<le> length tx \<Longrightarrow>
   countLoop tx search idx count = count + scanCount search (drop idx tx)"
proof (induction tx search idx count rule: countLoop.induct)
  case (1 tx search idx count)
  show ?case
  proof (cases "indexOf tx search idx")
    case None
    with "1.prems" have "firstOcc search (drop idx tx) = None"
      by (simp add: indexOf_def min_def)
    with None "1.prems" show ?thesis
      by (subst countLoop.simps) (simp add: firstOcc_None_scanCount)
  next
    case (Some n)
    with "1.prems" obtain j where j: "firstOcc search (drop idx tx) = Some j" "n = j + idx"
      by (auto simp: indexOf_def min_def)
    from indexOf_bound [OF Some] have b: "n + length search \<le> length tx" by simp
    from "1.prems" have ne: "length search \<noteq> 0" by simp
    have "countLoop tx search idx count = countLoop tx search (n + length search) (count + 1)"
      using Some ne by (subst countLoop.simps) simp
    also have "\<dots> = count + 1 + scanCount search (drop (n + length search) tx)"
      using "1.IH" [OF Some ne "1.prems"(1) b] .
    also have "\<dots> = count + scanCount search (drop idx tx)"
      using firstOcc_Some_scanCount [OF "1.prems"(1) j(1)] j(2) by (simp add: add.commute add.left_commute)
    finally show ?thesis .
  qed
qed

lemma firstOcc_None_scanReplace: "s \<noteq> [] \<Longrightarrow> firstOcc s t = None \<Longrightarrow> scanReplace s r t = t"
  by (induction t) (auto split: if_splits)

lemma firstOcc_Some_scanReplace:
  "s \<noteq> [] \<Longrightarrow> firstOcc s t = Some n \<Longrightarrow>
   scanReplace s r t = take n t @ r @ scanReplace s r (drop (n + length s) t)"
proof (induction t arbitrary: n)
  case Nil then show ?case by simp
next
  case (Cons c cs)
  show ?case
  proof (cases "prefix s (c # cs)")
    case True
    with Cons.prems show ?thesis by simp
  next
    case False
    with Cons.prems obtain k where k: "firstOcc s cs = Some k" "n = Suc k" by auto
    from Cons.IH [OF Cons.prems(1) k(1)] k(2) False show ?thesis by simp
  qed
qed

lemma splitFrom_ne: "splitFrom tx sp i \<noteq> []"
  by (subst splitFrom.simps) (simp split: option.splits)

lemma join_Cons: "xs \<noteq> [] \<Longrightarrow> join (x # xs) r = x @ r @ join xs r"
  by (cases xs) simp_all

lemma splitFrom_scan:
  "sp \<noteq> [] \<Longrightarrow> i \<le> length tx \<Longrightarrow>
   join (splitFrom tx sp i) r = scanReplace sp r (drop i tx)"
proof (induction tx sp i rule: splitFrom.induct)
  case (1 tx sp i)
  show ?case
  proof (cases "indexOf tx sp i")
    case None
    with "1.prems" have "firstOcc sp (drop i tx) = None"
      by (simp add: indexOf_def min_def)
    with None "1.prems" show ?thesis
      by (subst splitFrom.simps) (simp add: firstOcc_None_scanReplace)
  next
    case (Some n)
    with "1.prems" obtain j where j: "firstOcc sp (drop i tx) = Some j" "n = j + i"
      by (auto simp: indexOf_def min_def)
    from indexOf_bound [OF Some] have b: "n + length sp \<le> length tx" by simp
    have "join (splitFrom tx sp i) r
        = join (take (n - i) (drop i tx) # splitFrom tx sp (n + length sp)) r"
      using Some "1.prems"(1) by (subst splitFrom.simps) simp
    also have "\<dots> = take (n - i) (drop i tx) @ r @ join (splitFrom tx sp (n + length sp)) r"
      by (rule join_Cons [OF splitFrom_ne])
    also have "\<dots> = take j (drop i tx) @ r @ scanReplace sp r (drop (n + length sp) tx)"
      using "1.IH" [OF Some "1.prems"(1) "1.prems"(1) b] j(2) by simp
    also have "\<dots> = scanReplace sp r (drop i tx)"
      using firstOcc_Some_scanReplace [OF "1.prems"(1) j(1), of r] j(2)
      by (simp add: add.commute add.left_commute)
    finally show ?thesis .
  qed
qed

text \<open>
  Claim C8. For a non-empty search string, the match count of a literal \<^verbatim>\<open>replaceText\<close>
  is the number of non-overlapping occurrences of the search string met scanning the text
  from left to right, and the new text has each of these occurrences replaced. This is
  the count a run reports in its preview line and the text a committing run writes.
\<close>

theorem C8_literal_count_and_replace:
  assumes "rt_mode rop = Literal" and "rt_search rop \<noteq> []"
  shows "countMatchesLiteral raw (rt_search rop) = scanCount (rt_search rop) raw \<and>
         replaceLiteral raw (rt_search rop) (rt_replace rop)
           = scanReplace (rt_search rop) (rt_replace rop) raw \<and>
         computeReplace compile rop raw =
           Some (Inr (scanCount (rt_search rop) raw,
                      scanReplace (rt_search rop) (rt_replace rop) raw)) \<and>
         (ensureWithinRoot (host_cwd h) rootWithSep (rt_path rop) = Inr absP \<and>
          host_stat h (st_disk st) absP = Inr s \<and> st_isFile s \<and>
          st_size s \<le> 2 * 1024 * 1024 \<and>
          host_readFile h (st_disk st) absP = Inr raw \<longrightarrow>
            processOp h False rootWithSep (ReplaceText rop) st =
              Some (pushPreview
                     (replaceLine False (rt_path rop) (scanCount (rt_search rop) raw))
                     (logCall (ReadFileCall absP) (logCall (StatCall absP) st))) \<and>
            (scanReplace (rt_search rop) (rt_replace rop) raw \<noteq> raw \<and>
             host_writeFile h (st_disk st) absP
               (scanReplace (rt_search rop) (rt_replace rop) raw) = (d, Normal) \<longrightarrow>
               processOp h True rootWithSep (ReplaceText rop) st =
                 Some (logCall
                        (WriteFileCall absP (scanReplace (rt_search rop) (rt_replace rop) raw))
                        ((pushPreview
                            (replaceLine True (rt_path rop) (scanCount (rt_search rop) raw))
                            (logCall (ReadFileCall absP) (logCall (StatCall absP) st)))
                          \<lparr>st_disk := d\<rparr>))))"
proof -
  have c: "countMatchesLiteral raw (rt_search rop) = scanCount (rt_search rop) raw"
    using countLoop_scan [of "rt_search rop" 0 raw 0] assms(2)
    by (simp add: countMatchesLiteral_def)
  have r: "replaceLiteral raw (rt_search rop) (rt_replace rop)
           = scanReplace (rt_search rop) (rt_replace rop) raw"
    using splitFrom_scan [of "rt_search rop" 0 raw "rt_replace rop"] assms(2)
    by (simp add: replaceLiteral_def split_def)
  have k: "computeReplace compile rop raw =
           Some (Inr (scanCount (rt_search rop) raw,
                      scanReplace (rt_search rop) (rt_replace rop) raw))" for compile
    using assms(1) c r by (simp add: computeReplace_literal)
  show ?thesis
  proof (intro conjI impI c r k)
    assume a: "ensureWithinRoot (host_cwd h) rootWithSep (rt_path rop) = Inr absP \<and>
          host_stat h (st_disk st) absP = Inr s \<and> st_isFile s \<and>
          st_size s \<le> 2 * 1024 * 1024 \<and>
          host_readFile h (st_disk st) absP = Inr raw"
    then have a1: "ensureWithinRoot (host_cwd h) rootWithSep (rt_path rop) = Inr absP"
      and a2: "host_stat h (st_disk st) absP = Inr s" and a3: "st_isFile s"
      and a4: "st_size s \<le> 2 * 1024 * 1024"
      and a5: "host_readFile h (st_disk st) absP = Inr raw" by blast+
    show "processOp h False rootWithSep (ReplaceText rop) st =
              Some (pushPreview
                     (replaceLine False (rt_path rop) (scanCount (rt_search rop) raw))
                     (logCall (ReadFileCall absP) (logCall (StatCall absP) st)))"
      by (rule processOp_replace_unwritten [OF a1 a2 a3 a4 a5 k]) simp
    assume w: "scanReplace (rt_search rop) (rt_replace rop) raw \<noteq> raw \<and>
             host_writeFile h (st_disk st) absP
               (scanReplace (rt_search rop) (rt_replace rop) raw) = (d, Normal)"
    then have w1: "scanReplace (rt_search rop) (rt_replace rop) raw \<noteq> raw"
      and w2: "host_writeFile h (st_disk st) absP
               (scanReplace (rt_search rop) (rt_replace rop) raw) = (d, Normal)" by blast+
    show "processOp h True rootWithSep (ReplaceText rop) st =
                 Some (logCall
                        (WriteFileCall absP (scanReplace (rt_search rop) (rt_replace rop) raw))
                        ((pushPreview
                            (replaceLine True (rt_path rop) (scanCount (rt_search rop) raw))
                            (logCall (ReadFileCall absP) (logCall (StatCall absP) st)))
                          \<lparr>st_disk := d\<rparr>))"
      by (rule processOp_replace_written [OF a1 a2 a3 a4 a5 k w1 w2])
  qed
qed

text \<open>The example of the specification: \<^verbatim>\<open>aXaXa\<close>, search \<^verbatim>\<open>a\<close>, replace \<^verbatim>\<open>b\<close>.\<close>

theorem C8_literal_count_and_replace_witness:
  "rt_mode \<lparr>rt_path = ''a.txt'', rt_mode = Literal, rt_search = ''a'', rt_replace = ''b'',
             rt_flags = None\<rparr> = Literal \<and>
   rt_search \<lparr>rt_path = ''a.txt'', rt_mode = Literal, rt_search = ''a'', rt_replace = ''b'',
             rt_flags = None\<rparr> \<noteq> [] \<and>
   scanCount ''a'' ''aXaXa'' = 3 \<and> scanReplace ''a'' ''b'' ''aXaXa'' = ''bXbXb'' \<and>
   computeReplace memCompile
     \<lparr>rt_path = ''a.txt'', rt_mode = Literal, rt_search = ''a'', rt_replace = ''b'',
      rt_flags = None\<rparr> ''aXaXa'' = Some (Inr (3, ''bXbXb'')) \<and>
   processOp memHost True ''/proj/''
     (ReplaceText \<lparr>rt_path = ''a.txt'', rt_mode = Literal, rt_search = ''a'',
                    rt_replace = ''b'', rt_flags = None\<rparr>)
     (initialState exampleDisk)
   = Some \<lparr>st_disk = [(''/proj/a.txt'', DFile 5 ''bXbXb''), (''/proj'', DDir),
                       (''/proj/abc.txt'', DFile 3 ''abc''), (''/proj/aaa.txt'', DFile 3 ''aaa'')],
           st_calls = [StatCall ''/proj/a.txt'', ReadFileCall ''/proj/a.txt'',
                       WriteFileCall ''/proj/a.txt'' ''bXbXb''],
           st_preview = [replaceLine True ''a.txt'' 3], st_errors = []\<rparr>"
proof -
  let ?rop = "\<lparr>rt_path = ''a.txt'', rt_mode = Literal, rt_search = ''a'', rt_replace = ''b'',
             rt_flags = None\<rparr>"
  have sc: "scanCount ''a'' ''aXaXa'' = 3" by code_simp
  have sr: "scanReplace ''a'' ''b'' ''aXaXa'' = ''bXbXb''" by code_simp
  note inst = C8_literal_count_and_replace [where rop = ?rop and raw = "''aXaXa''"
      and h = memHost and rootWithSep = "''/proj/''" and absP = "''/proj/a.txt''"
      and st = "initialState exampleDisk"
      and s = "\<lparr>st_isFile = True, st_size = 5, st_mtimeMs = 0\<rparr>"
      and d = "[(''/proj/a.txt'', DFile 5 ''bXbXb''), (''/proj'', DDir),
                (''/proj/abc.txt'', DFile 3 ''abc''), (''/proj/aaa.txt'', DFile 3 ''aaa'')]"
      and compile = memCompile]
  from inst sc sr example_within example_stat_a show ?thesis
    by (simp add: pushPreview_def logCall_def initialState_def numeral_3_eq_3)
qed

text \<open>
  Claim C3 says that a literal \<^verbatim>\<open>replaceText\<close> with an empty search string reports no
  match and leaves the text as it is. \<^verbatim>\<open>countMatchesLiteral\<close> returns 0 for the empty
  string, but \<^verbatim>\<open>raw.split("").join(replace)\<close> puts the replacement between every two
  characters of the text: on the file \<^verbatim>\<open>abc\<close> with replacement \<^verbatim>\<open>X\<close>, a committing run
  reports 0 matches and writes \<^verbatim>\<open>aXbXc\<close>.
\<close>

theorem C3_empty_search_changes_file:
  "applyPlan memHost exampleDisk
     \<lparr>in_root = ''/proj'',
      in_operations = [ReplaceText \<lparr>rt_path = ''abc.txt'', rt_mode = Literal, rt_search = [],
                                     rt_replace = ''X'', rt_flags = None\<rparr>],
      in_commit = True\<rparr>
   = Some (\<lparr>res_ok = True, res_root = ''/proj/'',
            res_preview = [replaceLine True ''abc.txt'' 0], res_errors = []\<rparr>,
           [(''/proj/abc.txt'', DFile 5 ''aXbXc''), (''/proj'', DDir),
            (''/proj/a.txt'', DFile 5 ''aXaXa''), (''/proj/aaa.txt'', DFile 3 ''aaa'')],
           [StatCall ''/proj/abc.txt'', ReadFileCall ''/proj/abc.txt'',
            WriteFileCall ''/proj/abc.txt'' ''aXbXc''])"
proof -
  let ?rop = "\<lparr>rt_path = ''abc.txt'', rt_mode = Literal, rt_search = [],
                                     rt_replace = ''X'', rt_flags = None\<rparr>"
  have cnt: "countMatchesLiteral ''abc'' [] = 0" by (simp add: countMatchesLiteral_def)
  have rep: "replaceLiteral ''abc'' [] ''X'' = ''aXbXc''"
    by (simp add: replaceLiteral_def split_def)
  have comp: "computeReplace (host_compile memHost) ?rop ''abc'' = Some (Inr (0, ''aXbXc''))"
    by (simp add: computeReplace_literal cnt rep)
  have ens: "ensureWithinRoot (host_cwd memHost) ''/proj/'' (rt_path ?rop) = Inr ''/proj/abc.txt''"
    using example_within_abc by simp
  have stat: "host_stat memHost (st_disk (initialState exampleDisk)) ''/proj/abc.txt''
      = Inr \<lparr>st_isFile = True, st_size = 3, st_mtimeMs = 0\<rparr>"
    by (simp add: example_stat_abc)
  have rd: "host_readFile memHost (st_disk (initialState exampleDisk)) ''/proj/abc.txt''
      = Inr ''abc''"
    by (simp add: example_stat_abc)
  have wr: "host_writeFile memHost (st_disk (initialState exampleDisk)) ''/proj/abc.txt''
      ''aXbXc'' = ([(''/proj/abc.txt'', DFile 5 ''aXbXc''), (''/proj'', DDir),
                (''/proj/a.txt'', DFile 5 ''aXaXa''), (''/proj/aaa.txt'', DFile 3 ''aaa'')],
               Normal)"
    by (simp add: example_stat_abc)
  have p: "processOp memHost True ''/proj/'' (ReplaceText ?rop) (initialState exampleDisk) =
     Some (logCall (WriteFileCall ''/proj/abc.txt'' ''aXbXc'')
            ((pushPreview (replaceLine True (rt_path ?rop) 0)
               (logCall (ReadFileCall ''/proj/abc.txt'')
                 (logCall (StatCall ''/proj/abc.txt'') (initialState exampleDisk))))
             \<lparr>st_disk := [(''/proj/abc.txt'', DFile 5 ''aXbXc''), (''/proj'', DDir),
                (''/proj/a.txt'', DFile 5 ''aXaXa''), (''/proj/aaa.txt'', DFile 3 ''aaa'')]\<rparr>))"
    by (rule processOp_replace_written [OF ens stat _ _ rd comp _ wr]) simp_all
  show ?thesis
    by (simp add: applyPlan_def example_root p)
qed

section \<open>Regular expression replacement\<close>

declare searchFrom.simps [simp del] collectMatches.simps [simp del]

lemma searchFrom_unfold:
  "searchFrom m sticky s i =
     (if length s < i then None
      else (case m s i of
              Some (len, caps) \<Rightarrow> Some \<lparr>m_index = i, m_length = len, m_captures = caps\<rparr>
            | None \<Rightarrow> if sticky then None else searchFrom m sticky s (i + 1)))"
  by (rule searchFrom.simps)

lemma searchFrom_here:
  "i \<le> length s \<Longrightarrow> m s i = Some (len, caps) \<Longrightarrow>
   searchFrom m sticky s i = Some \<lparr>m_index = i, m_length = len, m_captures = caps\<rparr>"
  by (subst searchFrom_unfold) simp

lemma searchFrom_match:
  "searchFrom m sticky s i = Some r \<Longrightarrow> m s (m_index r) = Some (m_length r, m_captures r)"
proof (induction m sticky s i rule: searchFrom.induct)
  case (1 m sticky s i)
  note unfold = searchFrom_unfold [of m sticky s i]
  from "1.prems" unfold have le: "\<not> length s < i" by (simp split: if_splits)
  show ?case
  proof (cases "m s i")
    case None
    with "1.prems" unfold le have ns: "\<not> sticky" by (simp split: if_splits)
    with "1.prems" unfold le None have rec: "searchFrom m sticky s (i + 1) = Some r" by simp
    from "1.IH" [OF le None ns rec] show ?thesis .
  next
    case (Some a)
    obtain len caps where a: "a = (len, caps)" by (cases a)
    with "1.prems" unfold le Some
    have "r = \<lparr>m_index = i, m_length = len, m_captures = caps\<rparr>" by simp
    with Some a show ?thesis by simp
  qed
qed

lemma regExpExec_global:
  assumes "re_global re"
  shows "searchFrom (re_matcher re) (re_sticky re) s (lastIndex re) = None \<Longrightarrow>
         regExpExec re s = (None, re\<lparr>lastIndex := 0\<rparr>)"
    and "searchFrom (re_matcher re) (re_sticky re) s (lastIndex re) = Some r \<Longrightarrow>
         regExpExec re s = (Some r, re\<lparr>lastIndex := m_index r + m_length r\<rparr>)"
  using assms by (simp_all add: regExpExec_def Let_def)

lemma re_update_simps [simp]:
  "re_global (re\<lparr>lastIndex := n\<rparr>) = re_global re"
  "re_sticky (re\<lparr>lastIndex := n\<rparr>) = re_sticky re"
  by (simp_all add: re_global_def re_sticky_def)

text \<open>An empty match at \<^verbatim>\<open>lastIndex\<close> leaves \<^verbatim>\<open>lastIndex\<close> where it is, and the loop of
  \<^verbatim>\<open>countMatchesRegex\<close> meets the same match again: it does not return.\<close>

lemma countLoopRegex_stuck:
  assumes "re_global re" and "lastIndex re \<le> length s"
    and "re_matcher re s (lastIndex re) = Some (0, caps)"
  shows "countLoopRegex re s count = None"
proof (rule ccontr)
  assume "countLoopRegex re s count \<noteq> None"
  then obtain y where y: "countLoopRegex re s count = Some y" by auto
  have "\<not> (re_global re \<and> lastIndex re \<le> length s \<and>
           (\<exists>caps. re_matcher re s (lastIndex re) = Some (0, caps)))"
  proof (rule countLoopRegex.raw_induct [OF _ y])
    fix loop :: "RegExp \<Rightarrow> string \<Rightarrow> nat \<Rightarrow> nat option"
    fix re s count y
    assume IH: "\<And>re s count y. loop re s count = Some y \<Longrightarrow>
        \<not> (re_global re \<and> lastIndex re \<le> length s \<and>
           (\<exists>caps. re_matcher re s (lastIndex re) = Some (0, caps)))"
    assume body: "(case regExpExec re s of
          (None, re') \<Rightarrow> Some count
        | (Some r, re') \<Rightarrow>
            if \<not> re_global re' then Some (count + 1) else loop re' s (count + 1)) = Some y"
    show "\<not> (re_global re \<and> lastIndex re \<le> length s \<and>
           (\<exists>caps. re_matcher re s (lastIndex re) = Some (0, caps)))"
    proof
      assume inv: "re_global re \<and> lastIndex re \<le> length s \<and>
           (\<exists>caps. re_matcher re s (lastIndex re) = Some (0, caps))"
      then obtain caps where m: "re_matcher re s (lastIndex re) = Some (0, caps)" by blast
      let ?r = "\<lparr>m_index = lastIndex re, m_length = 0, m_captures = caps\<rparr>"
      from inv m have "searchFrom (re_matcher re) (re_sticky re) s (lastIndex re) = Some ?r"
        by (intro searchFrom_here) simp_all
      with inv have ex: "regExpExec re s = (Some ?r, re\<lparr>lastIndex := lastIndex re\<rparr>)"
        using regExpExec_global(2) [of re s ?r] by simp
      with body inv have "loop (re\<lparr>lastIndex := lastIndex re\<rparr>) s (count + 1) = Some y"
        by simp
      from IH [OF this] inv m show False by simp
    qed
  qed
  with assms show False by blast
qed

lemma countLoopRegex_counts:
  "neverEmpty m s \<Longrightarrow> re_matcher re = m \<Longrightarrow> re_sticky re = sticky \<Longrightarrow>
   re_global re \<Longrightarrow> lastIndex re = li \<Longrightarrow>
   countLoopRegex re s count = Some (count + length (collectMatches m sticky s li))"
proof (induction m sticky s li arbitrary: re count rule: collectMatches.induct)
  case (1 m sticky s li)
  show ?case
  proof (cases "searchFrom m sticky s li")
    case None
    with "1.prems"(2-) have "regExpExec re s = (None, re\<lparr>lastIndex := 0\<rparr>)"
      using regExpExec_global(1) [of re s] by simp
    with None show ?thesis
      by (subst countLoopRegex.simps, subst collectMatches.simps) simp
  next
    case (Some r)
    have len: "m_length r \<noteq> 0"
    proof
      assume "m_length r = 0"
      with searchFrom_match [OF Some] have "m s (m_index r) = Some (0, m_captures r)" by simp
      with "1.prems"(1) show False unfolding neverEmpty_def by blast
    qed
    let ?re' = "re\<lparr>lastIndex := m_index r + m_length r\<rparr>"
    from Some "1.prems"(2-) have ex: "regExpExec re s = (Some r, ?re')"
      using regExpExec_global(2) [of re s r] by simp
    have "countLoopRegex re s count = countLoopRegex ?re' s (count + 1)"
      using ex "1.prems"(4) by (subst countLoopRegex.simps) simp
    also have "\<dots> = Some (count + 1 + length (collectMatches m sticky s
          (if m_length r = 0 then m_index r + m_length r + 1 else m_index r + m_length r)))"
      using "1.prems" len by (intro "1.IH" [OF Some]) simp_all
    also have "\<dots> = Some (count + length (collectMatches m sticky s li))"
      using Some by (subst (2) collectMatches.simps) simp
    finally show ?thesis .
  qed
qed

lemma buildReplaced_collected:
  "pos \<le> li \<Longrightarrow>
   buildReplaced s template (collectMatches m sticky s li) pos =
     spliceAll s template (collectMatches m sticky s li) pos"
proof (induction m sticky s li arbitrary: pos rule: collectMatches.induct)
  case (1 m sticky s li)
  show ?case
  proof (cases "searchFrom m sticky s li")
    case None
    then show ?thesis by (subst (1 2) collectMatches.simps) simp
  next
    case (Some r)
    let ?next = "if m_length r = 0 then m_index r + m_length r + 1 else m_index r + m_length r"
    from searchFrom_bounds [OF Some] have b: "li \<le> m_index r" "m_index r \<le> length s"
      by simp_all
    have step: "m_index r + m_length r \<le> ?next" by simp
    have c: "collectMatches m sticky s li = r # collectMatches m sticky s ?next"
      using Some by (subst collectMatches.simps) simp
    from "1.IH" [OF Some step]
    have "buildReplaced s template (collectMatches m sticky s ?next) (m_index r + m_length r) =
          spliceAll s template (collectMatches m sticky s ?next) (m_index r + m_length r)" .
    with b "1.prems" show ?thesis
      by (simp only: c buildReplaced.simps spliceAll.simps Let_def) (simp add: min_def)
  qed
qed

lemma newRegExp_Inr:
  "newRegExp compile source flags = Inr re \<Longrightarrow>
   re_flags re = flags \<and> re_source re = source \<and> lastIndex re = 0 \<and>
   compile source flags = Inr (re_matcher re)"
  by (auto simp: newRegExp_def split: sum.splits)

lemma forcedFlags_global: "CHR ''g'' \<in> set (forcedFlags optFlags)"
  by (simp add: forcedFlags_def Let_def)

lemma computeReplace_regex:
  assumes "rt_mode rop = Regex"
    and "newRegExp compile (rt_search rop) (forcedFlags (rt_flags rop)) = Inr re"
  shows "computeReplace compile rop raw =
     (case countLoopRegex re raw 0 of
        None \<Rightarrow> None
      | Some matchCount \<Rightarrow> Some (Inr (matchCount, replaceRegExp raw re (rt_replace rop))))"
proof -
  from newRegExp_Inr [OF assms(2)] forcedFlags_global [of "rt_flags rop"]
  have g: "re_global re" and l: "re\<lparr>lastIndex := 0\<rparr> = re"
    by (simp_all add: re_global_def)
  from assms g l show ?thesis
    by (simp add: computeReplace_def forcedFlags_def Let_def countMatchesRegex_def
        split: option.splits)
qed

lemma regex_count_is_number_replaced:
  assumes "rt_mode rop = Regex"
    and "newRegExp compile (rt_search rop) (forcedFlags (rt_flags rop)) = Inr re"
    and "neverEmpty (re_matcher re) raw"
  shows "computeReplace compile rop raw =
     Some (Inr (length (collectMatches (re_matcher re) (re_sticky re) raw 0),
                spliceAll raw (rt_replace rop)
                  (collectMatches (re_matcher re) (re_sticky re) raw 0) 0))"
proof -
  from newRegExp_Inr [OF assms(2)] forcedFlags_global [of "rt_flags rop"]
  have g: "re_global re" and l: "lastIndex re = 0"
    by (simp_all add: re_global_def)
  from countLoopRegex_counts [OF assms(3) refl refl g l, of 0]
  have c: "countLoopRegex re raw 0 =
      Some (length (collectMatches (re_matcher re) (re_sticky re) raw 0))" by simp
  have r: "replaceRegExp raw re (rt_replace rop) =
      spliceAll raw (rt_replace rop) (collectMatches (re_matcher re) (re_sticky re) raw 0) 0"
    using g by (simp add: replaceRegExp_def buildReplaced_collected)
  show ?thesis
    by (simp add: computeReplace_regex [OF assms(1,2)] c r)
qed

lemma regex_example:
  "computeReplace memCompile
     \<lparr>rt_path = ''aaa.txt'', rt_mode = Regex, rt_search = ''a'', rt_replace = ''b'',
      rt_flags = Some []\<rparr> ''aaa'' = Some (Inr (3, ''bbb''))"
proof -
  let ?rop = "\<lparr>rt_path = ''aaa.txt'', rt_mode = Regex, rt_search = ''a'', rt_replace = ''b'',
      rt_flags = Some []\<rparr>"
  let ?re = "\<lparr>re_source = ''a'', re_flags = ''g'', re_matcher = plainMatcher ''a'',
             lastIndex = 0\<rparr>"
  have n: "newRegExp memCompile (rt_search ?rop) (forcedFlags (rt_flags ?rop)) = Inr ?re"
    by (simp add: newRegExp_def memCompile_def forcedFlags_def isPlainChar_def)
  have c: "countLoopRegex ?re ''aaa'' 0 = Some 3" by code_simp
  have r: "replaceRegExp ''aaa'' ?re ''b'' = ''bbb''" by code_simp
  show ?thesis
    using computeReplace_regex [OF _ n, of "''aaa''"] by (simp add: c r)
qed

text \<open>
  Claim C5 says that in regex mode the count is the number of matches in the whole file
  and every match is replaced, whatever the flags. The flag \<^verbatim>\<open>g\<close> is indeed always
  forced, and for a pattern that never matches the empty string in the text the count is
  the number of matches that \<^verbatim>\<open>replace\<close> substitutes (\<open>regex_count_is_number_replaced\<close>;
  the example of the specification is \<open>regex_example\<close>). But the loop of
  \<^verbatim>\<open>countMatchesRegex\<close> does not step over an empty match: on a pattern that matches the
  empty string, here the empty pattern on the file \<^verbatim>\<open>aaa\<close>, \<^verbatim>\<open>applyPlan\<close> does not
  return, neither a count nor a result.
\<close>

theorem C5_empty_match_never_returns:
  "applyPlan memHost exampleDisk
     \<lparr>in_root = ''/proj'',
      in_operations = [ReplaceText \<lparr>rt_path = ''aaa.txt'', rt_mode = Regex, rt_search = [],
                                     rt_replace = ''-'', rt_flags = None\<rparr>],
      in_commit = False\<rparr> = None"
proof -
  let ?rop = "\<lparr>rt_path = ''aaa.txt'', rt_mode = Regex, rt_search = [],
                                     rt_replace = ''-'', rt_flags = None\<rparr>"
  let ?re = "\<lparr>re_source = [], re_flags = ''g'', re_matcher = plainMatcher [],
             lastIndex = 0\<rparr>"
  have n: "newRegExp (host_compile memHost) (rt_search ?rop) (forcedFlags (rt_flags ?rop))
      = Inr ?re"
    by (simp add: newRegExp_def memCompile_def forcedFlags_def)
  have stuck: "countLoopRegex ?re ''aaa'' 0 = None"
    by (rule countLoopRegex_stuck [where caps = "[]"])
       (simp_all add: re_global_def plainMatcher_def)
  have comp: "computeReplace (host_compile memHost) ?rop ''aaa'' = None"
    using computeReplace_regex [OF _ n, of "''aaa''"] by (simp add: stuck)
  have ens: "ensureWithinRoot (host_cwd memHost) ''/proj/'' (rt_path ?rop) = Inr ''/proj/aaa.txt''"
    by simp code_simp
  have stat: "host_stat memHost (st_disk (initialState exampleDisk)) ''/proj/aaa.txt''
      = Inr \<lparr>st_isFile = True, st_size = 3, st_mtimeMs = 0\<rparr>"
    by simp code_simp
  have rd: "host_readFile memHost (st_disk (initialState exampleDisk)) ''/proj/aaa.txt''
      = Inr ''aaa''"
    by simp code_simp
  have "execReplace memHost False ''/proj/'' ?rop (initialState exampleDisk) = None"
    by (rule execReplace_no_return [OF ens stat _ _ rd comp]) simp_all
  then have "processOp memHost False ''/proj/'' (ReplaceText ?rop) (initialState exampleDisk)
      = None"
    by (simp add: processOp_None tryBody_other)
  then show ?thesis
    by (simp add: applyPlan_def example_root)
qed

section \<open>The cap of the directory walker\<close>

text \<open>The test of the cap, read as a test against the limit.\<close>

lemma lengthGe_limit:
  "lengthGe n maxEntries = (case limit maxEntries of None \<Rightarrow> False | Some m \<Rightarrow> m \<le> n)"
proof (cases maxEntries)
  case (Finite r)
  have "(r \<le> of_nat n) = (\<lceil>r\<rceil> \<le> int n)" by (simp add: ceiling_le_iff)
  also have "\<dots> = (nat \<lceil>r\<rceil> \<le> n)" by (simp add: nat_le_iff)
  finally show ?thesis using Finite by simp
qed simp_all

lemma cappedAt_full:
  assumes "lengthGe (length xs) maxEntries"
    and "\<forall>m. limit maxEntries = Some m \<longrightarrow> length xs \<le> m"
  shows "cappedAt (limit maxEntries) (xs @ ys, err) = Inr xs"
proof -
  from assms(1) obtain m where m: "limit maxEntries = Some m" "m \<le> length xs"
    by (auto simp: lengthGe_limit split: option.splits)
  with assms(2) have "length xs = m" by auto
  with m(1) show ?thesis by simp
qed

lemma cappedAt_below:
  assumes "\<not> lengthGe (length xs) maxEntries"
  shows "cappedAt (limit maxEntries) (xs, err) = (case err of None \<Rightarrow> Inr xs | Some e \<Rightarrow> Inl e)"
  using assms by (auto simp: lengthGe_limit split: option.splits)

lemma cappedAt_reached:
  assumes "lengthGe (length xs) maxEntries"
  shows "cappedAt (limit maxEntries) (xs @ ys, err) = Inr (take (the (limit maxEntries)) xs)"
  using assms by (auto simp: lengthGe_limit split: option.splits)

lemma room_for_one:
  assumes "\<not> lengthGe (length xs) maxEntries"
  shows "\<forall>m. limit maxEntries = Some m \<longrightarrow> length (xs @ [e]) \<le> m"
  using assms by (auto simp: lengthGe_limit split: option.splits)

lemma room_still:
  assumes "\<not> lengthGe (length xs) maxEntries"
  shows "\<forall>m. limit maxEntries = Some m \<longrightarrow> length xs \<le> m"
  using assms by (auto simp: lengthGe_limit split: option.splits)

lemma room_taken:
  assumes "lengthGe (length xs) maxEntries"
  shows "\<forall>m. limit maxEntries = Some m \<longrightarrow> length (take (the (limit maxEntries)) xs) \<le> m"
    and "lengthGe (length (take (the (limit maxEntries)) xs)) maxEntries"
  using assms by (auto simp: lengthGe_limit split: option.splits)

text \<open>The loop of the walker against the walk with no cap: started below the limit, it
  returns the first entries of that walk as soon as there are enough of them, and goes
  on like that walk as long as there are not.\<close>

lemma walkItems_capped:
  "\<forall>m. limit maxEntries = Some m \<longrightarrow> length out \<le> m \<Longrightarrow>
   walkItems maxEntries cwd rootWithSep absDir items out =
     cappedAt (limit maxEntries)
       (out @ fst (uncapped cwd rootWithSep absDir items),
        snd (uncapped cwd rootWithSep absDir items))"
proof (induction maxEntries cwd rootWithSep absDir items out rule: walkItems.induct)
  case (1 maxEntries cwd rootWithSep absDir out)
  show ?case
  proof (cases "lengthGe (length out) maxEntries")
    case True
    from cappedAt_full [OF True "1.prems", of "[]" None] show ?thesis by simp
  next
    case False
    from cappedAt_below [OF False, of None] show ?thesis by simp
  qed
next
  case (2 maxEntries cwd rootWithSep absDir name node items out)
  let ?L = "limit maxEntries"
  let ?absP = "pathJoin absDir name"
  let ?u = "uncapped cwd rootWithSep absDir items"
  show ?case
  proof (cases "lengthGe (length out) maxEntries")
    case True
    from cappedAt_full [OF True "2.prems"] True show ?thesis by simp
  next
    case False
    note below = False
    show ?thesis
    proof (cases node)
      case (FileNode st)
      let ?e = "\<lparr>e_path = toRel cwd rootWithSep ?absP, e_type = FileType,
                 e_size = st_size st, e_mtimeMs = st_mtimeMs st\<rparr>"
      from "2.IH"(1) [OF below refl FileNode room_for_one [OF below]] below FileNode
      show ?thesis by (simp add: Let_def split_beta)
    next
      case (DirNode st children)
      let ?e = "\<lparr>e_path = toRel cwd rootWithSep ?absP, e_type = DirType,
                 e_size = 0, e_mtimeMs = st_mtimeMs st\<rparr>"
      let ?c = "uncapped cwd rootWithSep ?absP children"
      have step: "walkItems maxEntries cwd rootWithSep absDir ((name, node) # items) out =
          (if lengthGe (length (out @ [?e])) maxEntries
           then walkItems maxEntries cwd rootWithSep absDir items (out @ [?e])
           else (case walkItems maxEntries cwd rootWithSep ?absP children (out @ [?e]) of
                   Inl e \<Rightarrow> Inl e
                 | Inr out2 \<Rightarrow> walkItems maxEntries cwd rootWithSep absDir items out2))"
        using below DirNode by (simp add: Let_def)
      define ys where "ys = (if snd ?c = None then fst ?u else [])"
      define err where "err = (if snd ?c = None then snd ?u else snd ?c)"
      have u: "uncapped cwd rootWithSep absDir ((name, node) # items) = (?e # fst ?c @ ys, err)"
      proof (cases ?c)
        case (Pair cs cerr)
        with DirNode show ?thesis
          by (cases cerr) (simp_all add: ys_def err_def split_beta)
      qed
      have ok: "snd ?c = None \<Longrightarrow> ys = fst ?u \<and> err = snd ?u"
        by (simp add: ys_def err_def)
      have ko: "\<And>e. snd ?c = Some e \<Longrightarrow> ys = [] \<and> err = Some e"
        by (simp add: ys_def err_def)
      show ?thesis
      proof (cases "lengthGe (length (out @ [?e])) maxEntries")
        case True
        from "2.IH"(2) [OF below refl DirNode refl True room_for_one [OF below]]
        have "walkItems maxEntries cwd rootWithSep absDir items (out @ [?e]) =
            cappedAt ?L ((out @ [?e]) @ fst ?u, snd ?u)" .
        also have "\<dots> = Inr (out @ [?e])"
          by (rule cappedAt_full [OF True room_for_one [OF below]])
        also have "\<dots> = cappedAt ?L ((out @ [?e]) @ fst ?c @ ys, err)"
          by (rule cappedAt_full [OF True room_for_one [OF below], symmetric])
        finally show ?thesis using step True u by simp
      next
        case False
        note below1 = False
        from "2.IH"(3) [OF below refl DirNode refl False room_for_one [OF below]]
        have c: "walkItems maxEntries cwd rootWithSep ?absP children (out @ [?e]) =
            cappedAt ?L ((out @ [?e]) @ fst ?c, snd ?c)" .
        show ?thesis
        proof (cases "lengthGe (length ((out @ [?e]) @ fst ?c)) maxEntries")
          case True
          let ?out2 = "take (the ?L) ((out @ [?e]) @ fst ?c)"
          from cappedAt_reached [OF True, of "[]" "snd ?c"] c
          have c2: "walkItems maxEntries cwd rootWithSep ?absP children (out @ [?e]) = Inr ?out2"
            by simp
          from "2.IH"(4) [OF below refl DirNode refl below1 c2 room_taken(1) [OF True]]
          have "walkItems maxEntries cwd rootWithSep absDir items ?out2 =
              cappedAt ?L (?out2 @ fst ?u, snd ?u)" .
          also have "\<dots> = Inr ?out2"
            by (rule cappedAt_full [OF room_taken(2) [OF True] room_taken(1) [OF True]])
          also have "\<dots> = cappedAt ?L (((out @ [?e]) @ fst ?c) @ ys, err)"
            by (rule cappedAt_reached [OF True, symmetric])
          finally show ?thesis using step below1 c2 u by simp
        next
          case False
          show ?thesis
          proof (cases "snd ?c")
            case None
            from cappedAt_below [OF False, of "snd ?c"] c None
            have c2: "walkItems maxEntries cwd rootWithSep ?absP children (out @ [?e])
                = Inr ((out @ [?e]) @ fst ?c)"
              by simp
            from "2.IH"(4) [OF below refl DirNode refl below1 c2 room_still [OF False]]
            have "walkItems maxEntries cwd rootWithSep absDir items ((out @ [?e]) @ fst ?c) =
                cappedAt ?L (((out @ [?e]) @ fst ?c) @ fst ?u, snd ?u)" .
            with step below1 c2 u ok [OF None] show ?thesis by simp
          next
            case (Some e)
            from cappedAt_below [OF False, of "snd ?c"] c Some
            have c2: "walkItems maxEntries cwd rootWithSep ?absP children (out @ [?e]) = Inl e"
              by simp
            from ko [OF Some] have "ys = []" "err = Some e" by simp_all
            with cappedAt_below [OF False, of "Some e"] step below1 c2 u
            show ?thesis by simp
          qed
        qed
      qed
    next
      case (LockedDir st e)
      let ?e = "\<lparr>e_path = toRel cwd rootWithSep ?absP, e_type = DirType,
                 e_size = 0, e_mtimeMs = st_mtimeMs st\<rparr>"
      show ?thesis
      proof (cases "lengthGe (length (out @ [?e])) maxEntries")
        case True
        from "2.IH"(5) [OF below refl LockedDir refl True room_for_one [OF below]]
        have "walkItems maxEntries cwd rootWithSep absDir items (out @ [?e]) =
            cappedAt ?L ((out @ [?e]) @ fst ?u, snd ?u)" .
        also have "\<dots> = Inr (out @ [?e])"
          by (rule cappedAt_full [OF True room_for_one [OF below]])
        also have "\<dots> = cappedAt ?L ((out @ [?e]) @ [], Some e)"
          by (rule cappedAt_full [OF True room_for_one [OF below], symmetric])
        finally show ?thesis using below LockedDir True by (simp add: Let_def)
      next
        case False
        from cappedAt_below [OF False, of "Some e"] below LockedDir False
        show ?thesis by (simp add: Let_def)
      qed
    next
      case (OtherNode st)
      from "2.IH"(6) [OF below refl OtherNode "2.prems"] below OtherNode
      show ?thesis by (simp add: Let_def)
    next
      case (BrokenNode e)
      from cappedAt_below [OF below, of "Some e"] below BrokenNode
      show ?thesis by (simp add: Let_def)
    qed
  qed
qed

lemma cappedAt_bound:
  "cappedAt (Some m) (xs, err) = Inr out \<Longrightarrow> length out \<le> m"
  by (auto split: if_splits option.splits)

text \<open>The whole listing, for any cap and for the cap of 5000 entries used when the
  caller gives none.\<close>

lemma listDirectory_capped:
  "listDirectory cwd root optsMaxEntries (Inr items) =
     cappedAt (limit (case optsMaxEntries of Some n \<Rightarrow> n | None \<Rightarrow> Finite 5000))
       (uncapped cwd (normalizeRoot cwd root) (normalizeRoot cwd root) items)"
proof -
  let ?cap = "case optsMaxEntries of Some n \<Rightarrow> n | None \<Rightarrow> Finite 5000"
  let ?r = "normalizeRoot cwd root"
  show ?thesis
  proof (cases "lengthGe (length ([] :: FsEntry list)) ?cap")
    case True
    then have "limit ?cap = Some 0"
      by (auto simp: lengthGe_limit split: option.splits)
    with True show ?thesis
      by (cases "uncapped cwd ?r ?r items") (simp add: listDirectory_def walk_def Let_def)
  next
    case False
    have "walkItems ?cap cwd ?r ?r items [] =
        cappedAt (limit ?cap) ([] @ fst (uncapped cwd ?r ?r items), snd (uncapped cwd ?r ?r items))"
      by (rule walkItems_capped) simp
    with False show ?thesis
      by (simp add: listDirectory_def walk_def Let_def)
  qed
qed

text \<open>When the root itself cannot be read, a listing with a positive cap raises.\<close>

lemma listDirectory_unreadable_root:
  "0 < r \<Longrightarrow> listDirectory cwd root (Some (Finite r)) (Inl e) = Inl e"
  by (simp add: listDirectory_def walk_def Let_def)

lemma example_relative:
  "toRel ''/home/user'' ''/proj/'' (pathJoin ''/proj/'' ''a'') = ''a''"
  "toRel ''/home/user'' ''/proj/'' (pathJoin ''/proj/'' ''b'') = ''b''"
  "toRel ''/home/user'' ''/proj/'' (pathJoin ''/proj/'' ''c'') = ''c''"
  "toRel ''/home/user'' ''/proj/'' (pathJoin ''/proj/'' ''d'') = ''d''"
  "toRel ''/home/user'' ''/proj/'' (pathJoin ''/proj/'' ''e'') = ''e''"
  "toRel ''/home/user'' ''/proj/'' ''/proj/sub'' = ''sub''"
  "pathJoin ''/proj/'' ''sub'' = ''/proj/sub''"
  "toRel ''/home/user'' ''/proj/'' (pathJoin ''/proj/sub'' ''x'') = ''sub/x''"
  "toRel ''/home/user'' ''/proj/'' (pathJoin ''/proj/sub'' ''y'') = ''sub/y''"
  by code_simp+

lemma five_files_uncapped:
  "uncapped ''/home/user'' ''/proj/'' ''/proj/'' fiveFiles =
     ([\<lparr>e_path = ''a'', e_type = FileType, e_size = 1, e_mtimeMs = 10\<rparr>,
       \<lparr>e_path = ''b'', e_type = FileType, e_size = 2, e_mtimeMs = 20\<rparr>,
       \<lparr>e_path = ''c'', e_type = FileType, e_size = 3, e_mtimeMs = 30\<rparr>,
       \<lparr>e_path = ''d'', e_type = FileType, e_size = 4, e_mtimeMs = 40\<rparr>,
       \<lparr>e_path = ''e'', e_type = FileType, e_size = 5, e_mtimeMs = 50\<rparr>], None)"
  by (simp add: fiveFiles_def example_relative)

lemma broken_link_uncapped:
  "uncapped ''/home/user'' ''/proj/'' ''/proj/'' brokenLink =
     ([\<lparr>e_path = ''sub'', e_type = DirType, e_size = 0, e_mtimeMs = 5\<rparr>,
       \<lparr>e_path = ''sub/x'', e_type = FileType, e_size = 1, e_mtimeMs = 10\<rparr>,
       \<lparr>e_path = ''sub/y'', e_type = FileType, e_size = 2, e_mtimeMs = 20\<rparr>],
      Some (SystemError ''ENOENT''))"
  by (simp add: brokenLink_def example_relative)

text \<open>
  Claim C9, as stated, fails for a cap that is not an integer. The cap is any number the
  caller passes, and the walk stops when \<^verbatim>\<open>out.length >= maxEntries\<close>: with a cap of 1.5
  and a root of five files the listing has two entries, more than the cap.
\<close>

theorem C9_fractional_cap_counterexample:
  "listDirectory ''/home/user'' ''/proj'' (Some (Finite (3 / 2))) (Inr fiveFiles) =
     Inr [\<lparr>e_path = ''a'', e_type = FileType, e_size = 1, e_mtimeMs = 10\<rparr>,
          \<lparr>e_path = ''b'', e_type = FileType, e_size = 2, e_mtimeMs = 20\<rparr>] \<and>
   (3 / 2 :: rat) <
     of_nat (length [\<lparr>e_path = ''a'', e_type = FileType, e_size = 1, e_mtimeMs = 10\<rparr>,
                     \<lparr>e_path = ''b'', e_type = FileType, e_size = 2, e_mtimeMs = 20\<rparr>])"
  by (simp add: listDirectory_def walk_def example_root fiveFiles_def example_relative)

text \<open>
  Claim C9, amended. For a positive finite cap \<^verbatim>\<open>r\<close>, the listing stops at the least
  number of entries that is at least \<^verbatim>\<open>r\<close>, counted over the whole walk and not per
  directory: when the walk with no cap lists that many entries before any \<^verbatim>\<open>stat\<close> or
  \<^verbatim>\<open>readdir\<close> raises, the listing is exactly the first of them and nothing is raised,
  whatever comes later in the tree, even an entry that cannot be read; otherwise the
  listing is that of the walk with no cap, or what that walk raises. A root that cannot
  be read raises. So a listing that returns has at most \<^verbatim>\<open>r\<close> entries rounded up, which is
  at most \<^verbatim>\<open>r\<close> entries when the cap is an integer. A root with five files and a cap of
  2 gives exactly two entries.
\<close>

theorem C9_listing_is_capped:
  assumes "0 < r"
  shows "listDirectory cwd root (Some (Finite r)) (Inr items) =
           cappedAt (Some (nat \<lceil>r\<rceil>))
             (uncapped cwd (normalizeRoot cwd root) (normalizeRoot cwd root) items) \<and>
         listDirectory cwd root (Some (Finite r)) (Inl e) = Inl e \<and>
         (listDirectory cwd root (Some (Finite r)) rootDir = Inr out \<longrightarrow>
            int (length out) \<le> \<lceil>r\<rceil> \<and> (r = of_int k \<longrightarrow> int (length out) \<le> k))"
proof (intro conjI impI)
  show items: "\<And>items. listDirectory cwd root (Some (Finite r)) (Inr items) =
           cappedAt (Some (nat \<lceil>r\<rceil>))
             (uncapped cwd (normalizeRoot cwd root) (normalizeRoot cwd root) items)"
    using listDirectory_capped [of cwd root "Some (Finite r)"] by simp
  show "listDirectory cwd root (Some (Finite r)) (Inl e) = Inl e"
    using assms by (rule listDirectory_unreadable_root)
  assume ret: "listDirectory cwd root (Some (Finite r)) rootDir = Inr out"
  have "length out \<le> nat \<lceil>r\<rceil>"
  proof (cases rootDir)
    case (Inl e')
    with ret listDirectory_unreadable_root [OF assms, of cwd root e'] show ?thesis by simp
  next
    case (Inr its)
    with ret items [of its]
    have "cappedAt (Some (nat \<lceil>r\<rceil>))
        (fst (uncapped cwd (normalizeRoot cwd root) (normalizeRoot cwd root) its),
         snd (uncapped cwd (normalizeRoot cwd root) (normalizeRoot cwd root) its)) = Inr out"
      by simp
    then show ?thesis by (rule cappedAt_bound)
  qed
  moreover from assms have "0 \<le> \<lceil>r\<rceil>" by (simp add: zero_le_ceiling)
  ultimately show bound: "int (length out) \<le> \<lceil>r\<rceil>" by arith
  assume "r = of_int k"
  with bound show "int (length out) \<le> k" by simp
qed

theorem C9_listing_is_capped_witness:
  "(0::rat) < 2 \<and>
   listDirectory ''/home/user'' ''/proj'' (Some (Finite 2)) (Inr fiveFiles) =
     Inr [\<lparr>e_path = ''a'', e_type = FileType, e_size = 1, e_mtimeMs = 10\<rparr>,
          \<lparr>e_path = ''b'', e_type = FileType, e_size = 2, e_mtimeMs = 20\<rparr>] \<and>
   (2::rat) = of_int 2 \<and>
   int (length [\<lparr>e_path = ''a'', e_type = FileType, e_size = 1, e_mtimeMs = 10\<rparr>,
                \<lparr>e_path = ''b'', e_type = FileType, e_size = 2, e_mtimeMs = 20\<rparr>]) \<le> 2 \<and>
   (0::rat) < 3 \<and>
   snd (uncapped ''/home/user'' (normalizeRoot ''/home/user'' ''/proj'')
          (normalizeRoot ''/home/user'' ''/proj'') brokenLink) = Some (SystemError ''ENOENT'') \<and>
   listDirectory ''/home/user'' ''/proj'' (Some (Finite 3)) (Inr brokenLink) =
     Inr [\<lparr>e_path = ''sub'', e_type = DirType, e_size = 0, e_mtimeMs = 5\<rparr>,
          \<lparr>e_path = ''sub/x'', e_type = FileType, e_size = 1, e_mtimeMs = 10\<rparr>,
          \<lparr>e_path = ''sub/y'', e_type = FileType, e_size = 2, e_mtimeMs = 20\<rparr>]"
proof -
  let ?ab = "[\<lparr>e_path = ''a'', e_type = FileType, e_size = 1, e_mtimeMs = 10\<rparr>,
              \<lparr>e_path = ''b'', e_type = FileType, e_size = 2, e_mtimeMs = 20\<rparr>]"
  have two: "(0::rat) < 2" and three: "(0::rat) < 3" by simp_all
  have int2: "(2::rat) = of_int 2" by simp
  note c2 = C9_listing_is_capped [OF two, of "''/home/user''" "''/proj''" fiveFiles _
      "Inr fiveFiles" ?ab 2]
  note c3 = C9_listing_is_capped [OF three, of "''/home/user''" "''/proj''" brokenLink]
  from c2 have l2: "listDirectory ''/home/user'' ''/proj'' (Some (Finite 2)) (Inr fiveFiles) = Inr ?ab"
    by (simp add: example_root five_files_uncapped)
  from c2 l2 int2 have b2: "int (length ?ab) \<le> 2"
    by blast
  have u3: "snd (uncapped ''/home/user'' (normalizeRoot ''/home/user'' ''/proj'')
          (normalizeRoot ''/home/user'' ''/proj'') brokenLink) = Some (SystemError ''ENOENT'')"
    by (simp add: example_root broken_link_uncapped)
  from c3 have l3: "listDirectory ''/home/user'' ''/proj'' (Some (Finite 3)) (Inr brokenLink) =
     Inr [\<lparr>e_path = ''sub'', e_type = DirType, e_size = 0, e_mtimeMs = 5\<rparr>,
          \<lparr>e_path = ''sub/x'', e_type = FileType, e_size = 1, e_mtimeMs = 10\<rparr>,
          \<lparr>e_path = ''sub/y'', e_type = FileType, e_size = 2, e_mtimeMs = 20\<rparr>]"
    by (simp add: example_root broken_link_uncapped)
  show ?thesis by (intro conjI two l2 int2 b2 three u3 l3)
qed

end
